theory Spec2Isabelle
  imports Main "HOL-Library.Sublist"
begin

section \<open>The page: a tree of elements\<close>

text \<open>
  The script \<^verbatim>\<open>static/js/main.js\<close> works on the page it is loaded in. The page is
  modelled as a tree. An element carries the properties the script reads or writes:
  its tag name, its \<^verbatim>\<open>id\<close> (empty when it has none), the \<^verbatim>\<open>type\<close> and
  \<^verbatim>\<open>value\<close> properties, its checkedness, the tokens of its class attribute and its
  remaining attributes (\<^verbatim>\<open>data-tab\<close>, \<^verbatim>\<open>data-endpoint\<close>, \<^verbatim>\<open>href\<close>,
  \<^verbatim>\<open>download\<close>). The type and the value are the properties as the script reads them.
  A write to \<^verbatim>\<open>value\<close> stores the string it is given in a checkbox, and what is left
  of it as a date in a date input. A string is a list of characters, one for each code
  unit of the script's string.

  An element object is identified with its position in the tree, the list of child
  indices that leads to it from the root. The script never moves an element, so a position
  stays the same element as long as the element is in the page. A write to
  \<^verbatim>\<open>innerHTML\<close> or \<^verbatim>\<open>textContent\<close> of an element takes the elements below it out of
  the page. The script goes on using such an element in one place, the form in the submit
  handler, and there the form is followed into the subtree it was taken out with.
\<close>

record element =
  tag :: string
  ident :: string
  itype :: string
  val :: string
  checked :: bool
  classes :: "string list"
  attrs :: "(string \<times> string) list"

datatype node = Text string | Elem element "node list"

type_synonym path = "nat list"

fun get_at :: "path \<Rightarrow> node \<Rightarrow> node option" where
  "get_at [] n = Some n"
| "get_at (k # p) (Text s) = None"
| "get_at (k # p) (Elem a cs) = (if k < length cs then get_at p (cs ! k) else None)"

fun update_at :: "path \<Rightarrow> (node \<Rightarrow> node) \<Rightarrow> node \<Rightarrow> node" where
  "update_at [] f n = f n"
| "update_at (k # p) f (Text s) = Text s"
| "update_at (k # p) f (Elem a cs) =
     (if k < length cs then Elem a (cs[k := update_at p f (cs ! k)]) else Elem a cs)"

definition elem_at :: "path \<Rightarrow> node \<Rightarrow> element option" where
  "elem_at p t = (case get_at p t of Some (Elem a cs) \<Rightarrow> Some a | _ \<Rightarrow> None)"

definition children_at :: "path \<Rightarrow> node \<Rightarrow> node list option" where
  "children_at p t = (case get_at p t of Some (Elem a cs) \<Rightarrow> Some cs | _ \<Rightarrow> None)"

text \<open>Writes to one element: its properties, or its list of children.\<close>

fun map_element :: "(element \<Rightarrow> element) \<Rightarrow> node \<Rightarrow> node" where
  "map_element f (Text s) = Text s"
| "map_element f (Elem a cs) = Elem (f a) cs"

fun map_children :: "(node list \<Rightarrow> node list) \<Rightarrow> node \<Rightarrow> node" where
  "map_children f (Text s) = Text s"
| "map_children f (Elem a cs) = Elem a (f cs)"

definition set_prop :: "path \<Rightarrow> (element \<Rightarrow> element) \<Rightarrow> node \<Rightarrow> node" where
  "set_prop p f page = update_at p (map_element f) page"

definition set_innerHTML :: "path \<Rightarrow> node list \<Rightarrow> node \<Rightarrow> node" where
  "set_innerHTML p parsed page = update_at p (map_children (\<lambda>_. parsed)) page"

definition appendChild :: "path \<Rightarrow> node \<Rightarrow> node \<Rightarrow> node" where
  "appendChild p child page = update_at p (map_children (\<lambda>cs. cs @ [child])) page"

definition set_textContent :: "path \<Rightarrow> string \<Rightarrow> node \<Rightarrow> node" where
  "set_textContent p s page =
     update_at p (map_children (\<lambda>_. if s = [] then [] else [Text s])) page"

fun textContent :: "node \<Rightarrow> string" and textContent_list :: "node list \<Rightarrow> string" where
  "textContent (Text s) = s"
| "textContent (Elem a cs) = textContent_list cs"
| "textContent_list [] = []"
| "textContent_list (c # cs) = textContent c @ textContent_list cs"

text \<open>
  \<^verbatim>\<open>document.getElementById\<close>: the first element in document order with that id;
  \<^verbatim>\<open>null\<close> (here \<open>None\<close>) when there is none. The empty string is no id.
\<close>

fun find_id :: "string \<Rightarrow> node \<Rightarrow> path option"
  and find_id_in :: "string \<Rightarrow> nat \<Rightarrow> node list \<Rightarrow> path option" where
  "find_id i (Text s) = None"
| "find_id i (Elem a cs) = (if ident a = i then Some [] else find_id_in i 0 cs)"
| "find_id_in i k [] = None"
| "find_id_in i k (c # cs) =
     (case find_id i c of Some p \<Rightarrow> Some (k # p) | None \<Rightarrow> find_id_in i (Suc k) cs)"

definition getElementById :: "string \<Rightarrow> node \<Rightarrow> path option" where
  "getElementById i page = (if i = [] then None else find_id i page)"

text \<open>
  \<^verbatim>\<open>querySelectorAll\<close> for a selector that tests one element alone: the matching
  elements in document order.
\<close>

fun select :: "(element \<Rightarrow> bool) \<Rightarrow> node \<Rightarrow> path list"
  and select_in :: "(element \<Rightarrow> bool) \<Rightarrow> nat \<Rightarrow> node list \<Rightarrow> path list" where
  "select P (Text s) = []"
| "select P (Elem a cs) = (if P a then [[]] else []) @ select_in P 0 cs"
| "select_in P k [] = []"
| "select_in P k (c # cs) = map ((#) k) (select P c) @ select_in P (Suc k) cs"

definition new_element :: "string \<Rightarrow> element" where
  "new_element t =
     \<lparr>tag = t, ident = [], itype = [], val = [], checked = False, classes = [], attrs = []\<rparr>"

section \<open>String helpers of the script\<close>

text \<open>\<^verbatim>\<open>s.endsWith(suf)\<close>, \<^verbatim>\<open>s.includes(pat)\<close> and \<^verbatim>\<open>s.replace(pat, rep)\<close> with
  a string pattern (the first occurrence only), and the two global single-character
  replacements \<^verbatim>\<open>replace(/_/g, ' ')\<close> and \<^verbatim>\<open>replace(/-/g, '_')\<close>. The test
  \<open>startsWith\<close> is what the search for an occurrence repeats at each position.\<close>

definition startsWith :: "string \<Rightarrow> string \<Rightarrow> bool" where
  "startsWith s pat = (take (length pat) s = pat)"

definition endsWith :: "string \<Rightarrow> string \<Rightarrow> bool" where
  "endsWith s suf = (length suf \<le> length s \<and> drop (length s - length suf) s = suf)"


fun replace_first :: "string \<Rightarrow> string \<Rightarrow> string \<Rightarrow> string" where
  "replace_first pat rep [] = (if pat = [] then rep else [])"
| "replace_first pat rep (c # cs) =
     (if startsWith (c # cs) pat then rep @ drop (length pat) (c # cs)
      else c # replace_first pat rep cs)"

definition replace_char :: "char \<Rightarrow> char \<Rightarrow> string \<Rightarrow> string" where
  "replace_char a b s = map (\<lambda>c. if c = a then b else c) s"

text \<open>The decimal digit of a number below ten.\<close>

definition digit :: "nat \<Rightarrow> char" where
  "digit d = ''0123456789'' ! d"

section \<open>The checkbox renderer\<close>

text \<open>The registry \<^verbatim>\<open>definitions\<close>, in the order of its keys: each provider with its
  dimension names and its metric names.\<close>

definition definitions :: "(string \<times> string list \<times> string list) list" where
  "definitions =
    [(''admob'',
       [''DATE'', ''AD_UNIT'', ''FORMAT'', ''COUNTRY'', ''APP'', ''PLATFORM'', ''PLACEMENT'',
        ''AD_SOURCE'', ''CREATIVE'', ''BID_TYPE''],
       [''ESTIMATED_EARNINGS'', ''IMPRESSIONS'', ''IMPRESSION_RPM'', ''CLICKS'',
        ''ACTIVE_VIEW_IMPRESSIONS'', ''MATCHED_REQUESTS'', ''SHOW_RATE'',
        ''CLICK_THROUGH_RATE'', ''AD_REQUESTS'']),
     (''gam'',
       [''date'', ''ad_unit_name'', ''ad_unit_id'', ''parent_ad_unit_id'', ''country_name'',
        ''country_criteria_id''],
       [''impressions'', ''revenue'']),
     (''applovin'',
       [''day'', ''application'', ''country'', ''platform'', ''package_name'', ''size'',
        ''zone_id'', ''ad_type''],
       [''revenue'', ''views'', ''impressions'', ''clicks'']),
     (''chartboost'',
       [''day'', ''app_id'', ''app_name'', ''country_code'', ''platform'', ''ad_location'',
        ''ad_type'', ''campaign_type''],
       [''revenue'', ''impressions'', ''clicks'', ''installs'', ''ecpm'', ''cpcv'', ''ctr'',
        ''install_rate'', ''video_completed'']),
     (''facebook'', [''placement'', ''country'', ''day''], [''revenue'']),
     (''fyber'',
       [''app_id'', ''spot_id'', ''day'', ''country_code'', ''content_id'', ''content_name'',
        ''app_name'', ''distributor_name'', ''content_categories''],
       [''ad_requests'', ''impressions'', ''fill_rate'', ''clicks'', ''ctr'', ''ecpm'',
        ''revenue'']),
     (''hyprmx'', [''placement'', ''country''], []),
     (''inmobi'', [''country'', ''countryId'', ''placementId'', ''placementName''],
       [''earnings''])]"

text \<open>\<^verbatim>\<open>type.charAt(0).toUpperCase() + type.slice(1)\<close>; \<^verbatim>\<open>type\<close> is one of
  \<^verbatim>\<open>'dimensions'\<close> and \<^verbatim>\<open>'metrics'\<close>, so the first character is \<^verbatim>\<open>d\<close> or \<^verbatim>\<open>m\<close>.\<close>

definition upper_first :: "string \<Rightarrow> string" where
  "upper_first s =
     (case s of [] \<Rightarrow> []
      | c # cs \<Rightarrow> (if c = CHR ''d'' then CHR ''D'' else if c = CHR ''m'' then CHR ''M'' else c) # cs)"

definition heading :: "string \<Rightarrow> node" where
  "heading containerId =
     (let type = (if endsWith containerId ''-dimensions'' then ''dimensions'' else ''metrics'')
      in Elem (new_element ''strong'') [Text (upper_first type @ '':'')])"

definition checkbox :: "string \<Rightarrow> element" where
  "checkbox item = (new_element ''input'')\<lparr>itype := ''checkbox'', val := item, checked := True\<rparr>"

definition label_for :: "string \<Rightarrow> node" where
  "label_for item =
     Elem (new_element ''label'')
       [Elem (checkbox item) [], Text ('' '' @ replace_char CHR ''_'' CHR '' '' item)]"

definition createCheckboxes :: "string \<Rightarrow> string list \<Rightarrow> node \<Rightarrow> node" where
  "createCheckboxes containerId items page =
     (case getElementById containerId page of
        None \<Rightarrow> page
      | Some container \<Rightarrow>
          fold (\<lambda>item. appendChild container (label_for item)) items
            (set_innerHTML container [heading containerId] page))"

text \<open>The loop over \<^verbatim>\<open>Object.entries(definitions)\<close>.\<close>

definition populate :: "node \<Rightarrow> node" where
  "populate page =
     fold (\<lambda>(provider, dims, mets) pg.
             createCheckboxes (provider @ ''-metrics'') mets
               (createCheckboxes (provider @ ''-dimensions'') dims pg))
       definitions page"

text \<open>The calls the loop makes, in order: each panel id with the list rendered into it.\<close>

definition panels :: "(string \<times> string list) list" where
  "panels =
     concat (map (\<lambda>(provider, dims, mets).
                    [(provider @ ''-dimensions'', dims), (provider @ ''-metrics'', mets)])
               definitions)"

section \<open>What the browser provides\<close>

text \<open>
  A decoded JSON value. Of a number the script only ever asks whether it is truthy
  (that is, not zero) and what its string conversion is, so a number is represented by
  these two observations. An object is the list of its members, each key once.
\<close>

datatype number = Number (is_zero: bool) (num_text: string)

datatype json =
  JNull | JBool bool | JNum number | JStr string | JArr "json list" | JObj "(string \<times> json) list"

text \<open>The value of an expression of the submit handler: \<^verbatim>\<open>undefined\<close>, a length, or
  a part of the decoded response.\<close>

datatype jsval = Undefined | Count nat | Value json

datatype exn = TypeError string | SyntaxError string | RangeError string | Error string

fun message :: "exn \<Rightarrow> string" where
  "message (TypeError m) = m"
| "message (SyntaxError m) = m"
| "message (RangeError m) = m"
| "message (Error m) = m"

text \<open>What \<^verbatim>\<open>await fetch(...)\<close> and \<^verbatim>\<open>await response.json()\<close> give: either promise
  may be rejected with an error; a response has its status code.\<close>

datatype body = Malformed exn | Decoded json

datatype reply = Failed exn | Response nat body

text \<open>
  The platform: the two clock readings \<^verbatim>\<open>new Date()\<close> of \<^verbatim>\<open>setDefaultDates\<close> (time
  values, in milliseconds since 1970-01-01T00:00:00Z), the local time zone adjustment (the
  offset of local time from UTC in milliseconds, asked for a UTC time value when the flag is
  true and for a local one when it is false), \<^verbatim>\<open>JSON.stringify(v, null, 2)\<close>,
  \<^verbatim>\<open>URL.createObjectURL\<close> of a blob with the given text, and the messages of the
  engine's own errors (reading the named property of \<^verbatim>\<open>null\<close>, writing it, converting
  an object that has no usable \<^verbatim>\<open>toString\<close> to a string, formatting an invalid date).
\<close>

record platform =
  clock1 :: int
  clock2 :: int
  LocalTZA :: "int \<Rightarrow> bool \<Rightarrow> int"
  stringify :: "json \<Rightarrow> string"
  createObjectURL :: "string \<Rightarrow> string"
  null_read_msg :: "string \<Rightarrow> string"
  null_write_msg :: "string \<Rightarrow> string"
  primitive_msg :: string
  invalid_time_msg :: string

section \<open>Default dates\<close>

subsection \<open>Time values and the calendar\<close>

text \<open>
  \<^verbatim>\<open>setDefaultDates\<close> works with \<^verbatim>\<open>Date\<close> objects. Their methods are modelled after the
  language standard (ECMA-262, ``Date Objects''), whose names the definitions keep. A time
  value is a number of milliseconds since the start of 1970 in UTC, here an \<open>int\<close>; a day has
  \<open>msPerDay\<close> of them, and \<open>Day t\<close> is the number of the day that \<open>t\<close> falls in. The calendar is
  the Gregorian one, extended to all years.
\<close>

definition msPerDay :: int where
  "msPerDay = 86400000"

definition Day :: "int \<Rightarrow> int" where
  "Day t = t div msPerDay"


definition DaysInYear :: "int \<Rightarrow> int" where
  "DaysInYear y =
     (if y mod 4 \<noteq> 0 then 365 else if y mod 100 \<noteq> 0 then 366
      else if y mod 400 \<noteq> 0 then 365 else 366)"

definition DayFromYear :: "int \<Rightarrow> int" where
  "DayFromYear y = 365 * (y - 1970) + (y - 1969) div 4 - (y - 1901) div 100 + (y - 1601) div 400"

text \<open>
  The year of a time value is the largest year that starts at or before it. It is found by
  counting: upwards from 1970 for a day at or after the first day of 1970, downwards from
  1969 for a day before it. Both searches end, because a later year starts on a later day.
\<close>

function year_up :: "int \<Rightarrow> int \<Rightarrow> int" where
  "year_up d y = (if DayFromYear (y + 1) \<le> d then year_up d (y + 1) else y)"
  by pat_completeness auto
termination
proof (relation "measure (\<lambda>(d, y). nat (d - DayFromYear y))")
  show "wf (measure (\<lambda>(d, y). nat (d - DayFromYear y)))" by simp
next
  fix d y :: int
  assume le: "DayFromYear (y + 1) \<le> d"
  have a: "(y - 1969) div 4 \<le> (y + 1 - 1969) div 4" by (rule zdiv_mono1) simp_all
  have "(y + 1 - 1901) div 100 \<le> (y - 1901 + 100) div 100" by (rule zdiv_mono1) simp_all
  also have "\<dots> = (y - 1901) div 100 + 1" by simp
  finally have b: "(y + 1 - 1901) div 100 \<le> (y - 1901) div 100 + 1" .
  have c: "(y - 1601) div 400 \<le> (y + 1 - 1601) div 400" by (rule zdiv_mono1) simp_all
  have e: "365 * (y + 1 - 1970) = 365 * (y - 1970) + (365::int)" by simp
  have gen: "x + p - q + r < x + 365 + p' - q' + r'"
    if "p \<le> p'" "q' \<le> q + 1" "r \<le> r'" for x p q r p' q' r' :: int
    using that by linarith
  have "DayFromYear y < DayFromYear (y + 1)"
    unfolding DayFromYear_def e by (rule gen[OF a b c])
  with le show "((d, y + 1), (d, y)) \<in> measure (\<lambda>(d, y). nat (d - DayFromYear y))" by simp
qed

function year_down :: "int \<Rightarrow> int \<Rightarrow> int" where
  "year_down d y = (if d < DayFromYear y then year_down d (y - 1) else y)"
  by pat_completeness auto
termination
proof (relation "measure (\<lambda>(d, y). nat (DayFromYear y - d))")
  show "wf (measure (\<lambda>(d, y). nat (DayFromYear y - d)))" by simp
next
  fix d y :: int
  assume less: "d < DayFromYear y"
  have a: "(y - 1 - 1969) div 4 \<le> (y - 1969) div 4" by (rule zdiv_mono1) simp_all
  have "(y - 1901) div 100 \<le> (y - 1 - 1901 + 100) div 100" by (rule zdiv_mono1) simp_all
  also have "\<dots> = (y - 1 - 1901) div 100 + 1" by simp
  finally have b: "(y - 1901) div 100 \<le> (y - 1 - 1901) div 100 + 1" .
  have c: "(y - 1 - 1601) div 400 \<le> (y - 1601) div 400" by (rule zdiv_mono1) simp_all
  have e: "365 * (y - 1970) = 365 * (y - 1 - 1970) + (365::int)" by simp
  have gen: "x + p - q + r < x + 365 + p' - q' + r'"
    if "p \<le> p'" "q' \<le> q + 1" "r \<le> r'" for x p q r p' q' r' :: int
    using that by linarith
  have "DayFromYear (y - 1) < DayFromYear y"
    unfolding DayFromYear_def e by (rule gen[OF a b c])
  with less show "((d, y - 1), (d, y)) \<in> measure (\<lambda>(d, y). nat (DayFromYear y - d))" by simp
qed

declare year_up.simps [simp del] year_down.simps [simp del]

definition YearFromTime :: "int \<Rightarrow> int" where
  "YearFromTime t = (if 0 \<le> Day t then year_up (Day t) 1970 else year_down (Day t) 1969)"

definition InLeapYear :: "int \<Rightarrow> int" where
  "InLeapYear t = (if DaysInYear (YearFromTime t) = 366 then 1 else 0)"

definition DayWithinYear :: "int \<Rightarrow> int" where
  "DayWithinYear t = Day t - DayFromYear (YearFromTime t)"

text \<open>The month counts from 0 for January, the day of the month from 1.\<close>

definition MonthFromTime :: "int \<Rightarrow> int" where
  "MonthFromTime t =
     (let d = DayWithinYear t; l = InLeapYear t
      in if d < 31 then 0 else if d < 59 + l then 1 else if d < 90 + l then 2
         else if d < 120 + l then 3 else if d < 151 + l then 4 else if d < 181 + l then 5
         else if d < 212 + l then 6 else if d < 243 + l then 7 else if d < 273 + l then 8
         else if d < 304 + l then 9 else if d < 334 + l then 10 else 11)"

definition DateFromTime :: "int \<Rightarrow> int" where
  "DateFromTime t =
     (let d = DayWithinYear t; l = InLeapYear t; m = MonthFromTime t
      in if m = 0 then d + 1 else if m = 1 then d - 30 else if m = 2 then d - 58 - l
         else if m = 3 then d - 89 - l else if m = 4 then d - 119 - l
         else if m = 5 then d - 150 - l else if m = 6 then d - 180 - l
         else if m = 7 then d - 211 - l else if m = 8 then d - 242 - l
         else if m = 9 then d - 272 - l else if m = 10 then d - 303 - l else d - 333 - l)"

definition HourFromTime :: "int \<Rightarrow> int" where
  "HourFromTime t = (t div 3600000) mod 24"

definition MinFromTime :: "int \<Rightarrow> int" where
  "MinFromTime t = (t div 60000) mod 60"

definition SecFromTime :: "int \<Rightarrow> int" where
  "SecFromTime t = (t div 1000) mod 60"

definition msFromTime :: "int \<Rightarrow> int" where
  "msFromTime t = t mod 1000"

text \<open>
  \<open>MakeDay\<close> gives the number of the day that lies \<open>date - 1\<close> days after the first of the
  given month; the date may lie outside the month, and the month outside the year.
  \<open>month_start\<close> is the day within the year on which a month starts, in a leap year when
  \<open>l\<close> is 1. \<open>TimeClip\<close> keeps a time value that a \<^verbatim>\<open>Date\<close> can hold; any other becomes
  \<^verbatim>\<open>NaN\<close>, here \<open>None\<close>.
\<close>

definition month_start :: "int \<Rightarrow> int \<Rightarrow> int" where
  "month_start mn l =
     (if mn = 0 then 0 else if mn = 1 then 31 else if mn = 2 then 59 + l
      else if mn = 3 then 90 + l else if mn = 4 then 120 + l else if mn = 5 then 151 + l
      else if mn = 6 then 181 + l else if mn = 7 then 212 + l else if mn = 8 then 243 + l
      else if mn = 9 then 273 + l else if mn = 10 then 304 + l else 334 + l)"

definition MakeDay :: "int \<Rightarrow> int \<Rightarrow> int \<Rightarrow> int" where
  "MakeDay year month date =
     (let ym = year + month div 12; mn = month mod 12;
          l = (if DaysInYear ym = 366 then 1 else 0)
      in DayFromYear ym + month_start mn l + date - 1)"


definition TimeClip :: "int \<Rightarrow> int option" where
  "TimeClip time = (if \<bar>time\<bar> \<le> 8640000000000000 then Some time else None)"

definition LocalTime :: "platform \<Rightarrow> int \<Rightarrow> int" where
  "LocalTime env t = t + LocalTZA env t True"


subsection \<open>The methods of a date\<close>

text \<open>
  The value of a \<^verbatim>\<open>Date\<close> object is a time value or \<^verbatim>\<open>NaN\<close>, here an \<open>int option\<close>.
  \<^verbatim>\<open>new Date()\<close> holds the reading of the clock. \<^verbatim>\<open>getDate()\<close> is the day of the month in
  local time, \<^verbatim>\<open>NaN\<close> for an invalid date. \<^verbatim>\<open>setDate(date)\<close> sets the day of the month in
  local time and keeps the local time of day; the new value is what the object then holds.
  \<^verbatim>\<open>toISOString()\<close> formats in UTC, the year with four digits from 0 to 9999 and with a
  sign and six digits otherwise, and throws a range error for an invalid date.
\<close>

definition now :: "int \<Rightarrow> int option" where
  "now reading = TimeClip reading"



text \<open>The last \<open>n\<close> decimal digits of a number, with leading zeros.\<close>

fun pad :: "nat \<Rightarrow> nat \<Rightarrow> string" where
  "pad 0 k = []"
| "pad (Suc n) k = pad n (k div 10) @ [digit (k mod 10)]"

definition year_string :: "int \<Rightarrow> string" where
  "year_string y =
     (if 0 \<le> y \<and> y \<le> 9999 then pad 4 (nat y)
      else (if y < 0 then ''-'' else ''+'') @ pad 6 (nat \<bar>y\<bar>))"

definition toISOString :: "platform \<Rightarrow> int option \<Rightarrow> exn + string" where
  "toISOString env tv =
     (case tv of
        None \<Rightarrow> Inl (RangeError (invalid_time_msg env))
      | Some t \<Rightarrow>
          Inr (year_string (YearFromTime t) @ ''-'' @ pad 2 (nat (MonthFromTime t + 1)) @ ''-'' @
               pad 2 (nat (DateFromTime t)) @ ''T'' @ pad 2 (nat (HourFromTime t)) @ '':'' @
               pad 2 (nat (MinFromTime t)) @ '':'' @ pad 2 (nat (SecFromTime t)) @ ''.'' @
               pad 3 (nat (msFromTime t)) @ ''Z''))"

subsection \<open>The value of a date input\<close>

text \<open>
  A write to the \<^verbatim>\<open>value\<close> of an input of type \<^verbatim>\<open>date\<close> stores the string when it is
  a valid date string and the empty string otherwise (HTML, ``Date state''). A valid date
  string is a year of four or more digits that is not zero, a month from 01 to 12 and a day
  from 01 to the length of that month, with hyphens between them.
\<close>

definition month_length :: "int \<Rightarrow> int \<Rightarrow> int" where
  "month_length y m =
     (if m = 4 \<or> m = 6 \<or> m = 9 \<or> m = 11 then 30
      else if m = 2 then (if y mod 400 = 0 \<or> (y mod 4 = 0 \<and> y mod 100 \<noteq> 0) then 29 else 28)
      else 31)"

definition is_digit :: "char \<Rightarrow> bool" where
  "is_digit c = (c \<in> set ''0123456789'')"

definition digit_value :: "char \<Rightarrow> nat" where
  "digit_value c = of_char c - 48"

definition number_of :: "string \<Rightarrow> nat" where
  "number_of s = fold (\<lambda>c n. 10 * n + digit_value c) s 0"

definition valid_date_string :: "string \<Rightarrow> bool" where
  "valid_date_string s =
     (let year = takeWhile is_digit s
      in 4 \<le> length year \<and> 0 < number_of year \<and>
         (case dropWhile is_digit s of
            [h1, m1, m2, h2, d1, d2] \<Rightarrow>
              h1 = CHR ''-'' \<and> is_digit m1 \<and> is_digit m2 \<and>
              h2 = CHR ''-'' \<and> is_digit d1 \<and> is_digit d2 \<and>
              (let month = number_of [m1, m2]; day = number_of [d1, d2]
               in 1 \<le> month \<and> month \<le> 12 \<and> 1 \<le> day \<and>
                  int day \<le> month_length (int (number_of year)) (int month))
          | _ \<Rightarrow> False))"

definition sanitize_date :: "string \<Rightarrow> string" where
  "sanitize_date s = (if valid_date_string s then s else [])"

subsection \<open>Seeding\<close>

text \<open>
  \<^verbatim>\<open>formatDate\<close> is \<^verbatim>\<open>date.toISOString().split('T')[0]\<close>, the text before the first
  \<^verbatim>\<open>T\<close>. The selector \<^verbatim>\<open>input[type="date"]\<close> picks the date inputs, \<open>seed\<close> is the body of
  the loop over them, and \<open>seed_each\<close> is the loop: an error thrown in the body ends it and
  leaves the page as it then is.
\<close>

definition formatDate :: "platform \<Rightarrow> int option \<Rightarrow> exn + string" where
  "formatDate env date =
     (case toISOString env date of
        Inl e \<Rightarrow> Inl e
      | Inr s \<Rightarrow> Inr (takeWhile (\<lambda>c. c \<noteq> CHR ''T'') s))"





section \<open>Tab switching\<close>

text \<open>\<^verbatim>\<open>classList.add\<close> and \<^verbatim>\<open>classList.remove\<close> on the tokens of the class
  attribute.\<close>

definition classList_add :: "string \<Rightarrow> element \<Rightarrow> element" where
  "classList_add c a = (if c \<in> set (classes a) then a else a\<lparr>classes := classes a @ [c]\<rparr>)"

definition classList_remove :: "string \<Rightarrow> element \<Rightarrow> element" where
  "classList_remove c a = a\<lparr>classes := filter (\<lambda>x. x \<noteq> c) (classes a)\<rparr>"

definition has_class :: "string \<Rightarrow> element \<Rightarrow> bool" where
  "has_class c a = (c \<in> set (classes a))"

definition dataset :: "string \<Rightarrow> element \<Rightarrow> string option" where
  "dataset name a = map_of (attrs a) (''data-'' @ name)"

text \<open>The lists \<^verbatim>\<open>tabButtons\<close> and \<^verbatim>\<open>tabPanes\<close> are taken once, when the script
  runs; the click handler of a button works on them. A click on a tab button runs the
  handler of that button and of no other: tab buttons do not lie inside one another.
  \<open>pane_step\<close> is the body of the loop over the panes.\<close>

definition tabButtons :: "node \<Rightarrow> path list" where
  "tabButtons page = select (has_class ''tab-button'') page"

definition tabPanes :: "node \<Rightarrow> path list" where
  "tabPanes page = select (has_class ''tab-pane'') page"

definition pane_step :: "path \<Rightarrow> path \<Rightarrow> node \<Rightarrow> node" where
  "pane_step button pane page =
     (case (elem_at pane page, elem_at button page) of
        (Some p, Some b) \<Rightarrow>
          if Some (ident p) = dataset ''tab'' b
          then set_prop pane (classList_add ''active'') page
          else set_prop pane (classList_remove ''active'') page
      | _ \<Rightarrow> page)"

definition click :: "path list \<Rightarrow> path list \<Rightarrow> path \<Rightarrow> node \<Rightarrow> node" where
  "click buttons panes button page =
     (let page1 = fold (\<lambda>btn. set_prop btn (classList_remove ''active'')) buttons page;
          page2 = set_prop button (classList_add ''active'') page1
      in fold (pane_step button) panes page2)"

definition is_active :: "node \<Rightarrow> path \<Rightarrow> bool" where
  "is_active page p = (case elem_at p page of Some a \<Rightarrow> has_class ''active'' a | None \<Rightarrow> False)"

section \<open>Form submission\<close>

subsection \<open>Reading the decoded response\<close>

fun truthy_json :: "json \<Rightarrow> bool" where
  "truthy_json JNull = False"
| "truthy_json (JBool b) = b"
| "truthy_json (JNum n) = (\<not> is_zero n)"
| "truthy_json (JStr s) = (s \<noteq> [])"
| "truthy_json (JArr xs) = True"
| "truthy_json (JObj kvs) = True"

fun truthy :: "jsval \<Rightarrow> bool" where
  "truthy Undefined = False"
| "truthy (Count n) = (n \<noteq> 0)"
| "truthy (Value v) = truthy_json v"

text \<open>
  The property reads \<^verbatim>\<open>v.data\<close>, \<^verbatim>\<open>v.error\<close> and \<^verbatim>\<open>v.length\<close>. On \<^verbatim>\<open>null\<close>
  and \<^verbatim>\<open>undefined\<close> the read throws a type error. A decoded object has the
  properties of its members, an array and a string have a \<^verbatim>\<open>length\<close>, and nothing
  else has one of the three names.
\<close>

fun get_prop :: "platform \<Rightarrow> string \<Rightarrow> jsval \<Rightarrow> exn + jsval" where
  "get_prop env name Undefined = Inl (TypeError (null_read_msg env name))"
| "get_prop env name (Value JNull) = Inl (TypeError (null_read_msg env name))"
| "get_prop env name (Value (JObj kvs)) =
     Inr (case map_of kvs name of None \<Rightarrow> Undefined | Some v \<Rightarrow> Value v)"
| "get_prop env name (Value (JArr xs)) =
     Inr (if name = ''length'' then Count (length xs) else Undefined)"
| "get_prop env name (Value (JStr s)) =
     Inr (if name = ''length'' then Count (length s) else Undefined)"
| "get_prop env name v = Inr Undefined"

fun show_nat :: "nat \<Rightarrow> string" where
  "show_nat n = (if n < 10 then [digit n] else show_nat (n div 10) @ [digit (n mod 10)])"

declare show_nat.simps [simp del]

text \<open>
  String conversion, as a template literal and the \<^verbatim>\<open>Error\<close> constructor do it.
  An array is joined with commas, \<^verbatim>\<open>null\<close> members giving the empty string; an object
  gives \<^verbatim>\<open>[object Object]\<close>, unless a member of its own named \<^verbatim>\<open>toString\<close> hides
  the inherited method, and then the conversion throws a type error (here \<open>None\<close>).
\<close>

fun to_string :: "json \<Rightarrow> string option"
  and join :: "json list \<Rightarrow> string option" where
  "to_string JNull = Some ''null''"
| "to_string (JBool b) = Some (if b then ''true'' else ''false'')"
| "to_string (JNum n) = Some (num_text n)"
| "to_string (JStr s) = Some s"
| "to_string (JArr xs) = join xs"
| "to_string (JObj kvs) =
     (if ''toString'' \<in> fst ` set kvs then None else Some ''[object Object]'')"
| "join [] = Some []"
| "join (x # xs) =
     (case (if x = JNull then Some [] else to_string x) of
        None \<Rightarrow> None
      | Some s \<Rightarrow>
          (if xs = [] then Some s
           else (case join xs of None \<Rightarrow> None | Some r \<Rightarrow> Some (s @ '','' @ r))))"

fun to_str :: "jsval \<Rightarrow> string option" where
  "to_str Undefined = Some ''undefined''"
| "to_str (Count n) = Some (show_nat n)"
| "to_str (Value v) = to_string v"

definition ok :: "nat \<Rightarrow> bool" where
  "ok status = (200 \<le> status \<and> status \<le> 299)"

text \<open>
  \<^verbatim>\<open>const data = result.data || result;\<close>
  \<^verbatim>\<open>const rowCount = Array.isArray(data) ? data.length : (data.data ? data.data.length : 0);\<close>
\<close>

fun isArray :: "jsval \<Rightarrow> bool" where
  "isArray (Value (JArr xs)) = True"
| "isArray v = False"

definition rowCount :: "platform \<Rightarrow> json \<Rightarrow> exn + jsval" where
  "rowCount env result =
     (case get_prop env ''data'' (Value result) of
        Inl e \<Rightarrow> Inl e
      | Inr d \<Rightarrow>
          (let data = (if truthy d then d else Value result)
           in if isArray data then get_prop env ''length'' data
              else (case get_prop env ''data'' data of
                      Inl e \<Rightarrow> Inl e
                    | Inr dd \<Rightarrow> if truthy dd then get_prop env ''length'' dd else Inr (Count 0))))"

text \<open>\<^verbatim>\<open>new Error(result.error || `Server responded with status ${response.status}`)\<close>:
  the error that is thrown, which is a type error when the construction itself throws.\<close>

definition server_error :: "platform \<Rightarrow> nat \<Rightarrow> json \<Rightarrow> exn" where
  "server_error env status result =
     (case get_prop env ''error'' (Value result) of
        Inl e \<Rightarrow> e
      | Inr err \<Rightarrow>
          if truthy err
          then (case to_str err of None \<Rightarrow> TypeError (primitive_msg env) | Some m \<Rightarrow> Error m)
          else Error (''Server responded with status '' @ show_nat status))"

subsection \<open>The payload\<close>

datatype field = Single string | Many "string list"

type_synonym payload = "string \<rightharpoonup> field"

text \<open>\<^verbatim>\<open>payload[key] = value\<close> with a string value, on an object literal: the key
  \<^verbatim>\<open>__proto__\<close> names the inherited accessor, whose setter ignores a string.\<close>

definition assign :: "string \<Rightarrow> string \<Rightarrow> payload \<Rightarrow> payload" where
  "assign key v p = (if key = ''__proto__'' then p else p(key \<mapsto> Single v))"

definition field_key :: "string \<Rightarrow> string \<Rightarrow> string" where
  "field_key provider i = replace_char CHR ''-'' CHR ''_'' (replace_first (provider @ ''-'') [] i)"

text \<open>The elements of a subtree in document order, the root first.\<close>

fun elements :: "node \<Rightarrow> element list" and elements_in :: "node list \<Rightarrow> element list" where
  "elements (Text s) = []"
| "elements (Elem a cs) = a # elements_in cs"
| "elements_in [] = []"
| "elements_in (c # cs) = elements c @ elements_in cs"

text \<open>\<^verbatim>\<open>form.querySelectorAll('input, select')\<close>: the descendants of the form with one
  of the two tag names.\<close>

definition controls :: "node \<Rightarrow> element list" where
  "controls form =
     (case form of
        Text s \<Rightarrow> []
      | Elem a cs \<Rightarrow> filter (\<lambda>e. tag e = ''input'' \<or> tag e = ''select'') (elements_in cs))"

definition collect :: "string \<Rightarrow> element list \<Rightarrow> payload" where
  "collect provider inputs =
     fold (\<lambda>input p.
             if itype input \<noteq> ''checkbox''
             then assign (field_key provider (ident input)) (val input) p
             else p)
       inputs Map.empty"

text \<open>
  \<^verbatim>\<open>form.querySelectorAll(`#${provider}-dimensions input:checked`)\<close>: the descendants of
  the form that are checked checkboxes or radio buttons and have an ancestor, inside the
  form or not, with the id of the panel. The selector is read as it is meant:
  \<^verbatim>\<open>#\<close> followed by that id. This is what the browser does when the provider is
  made of letters, digits, hyphens and underscores and starts with a letter
  (\<open>css_name\<close>), as every provider of the registry is.
\<close>

definition is_checked :: "element \<Rightarrow> bool" where
  "is_checked a = (tag a = ''input'' \<and> (itype a = ''checkbox'' \<or> itype a = ''radio'') \<and> checked a)"

fun checked_under :: "string \<Rightarrow> bool \<Rightarrow> node \<Rightarrow> string list"
  and checked_under_in :: "string \<Rightarrow> bool \<Rightarrow> node list \<Rightarrow> string list" where
  "checked_under x inside (Text s) = []"
| "checked_under x inside (Elem a cs) =
     (if inside \<and> is_checked a then [val a] else []) @ checked_under_in x (inside \<or> ident a = x) cs"
| "checked_under_in x inside [] = []"
| "checked_under_in x inside (c # cs) = checked_under x inside c @ checked_under_in x inside cs"

fun on_path :: "(element \<Rightarrow> bool) \<Rightarrow> path \<Rightarrow> node \<Rightarrow> bool" where
  "on_path P p (Text s) = False"
| "on_path P [] (Elem a cs) = P a"
| "on_path P (k # p) (Elem a cs) = (P a \<or> (k < length cs \<and> on_path P p (cs ! k)))"

definition checked_values :: "string \<Rightarrow> path \<Rightarrow> node \<Rightarrow> string list" where
  "checked_values x form page =
     (case get_at form page of
        Some (Elem a cs) \<Rightarrow> checked_under_in x (on_path (\<lambda>e. ident e = x) form page) cs
      | _ \<Rightarrow> [])"

definition is_letter :: "char \<Rightarrow> bool" where
  "is_letter c = (c \<in> set ''abcdefghijklmnopqrstuvwxyzABCDEFGHIJKLMNOPQRSTUVWXYZ'')"

definition css_name :: "string \<Rightarrow> bool" where
  "css_name s =
     (case s of
        [] \<Rightarrow> False
      | c # cs \<Rightarrow> is_letter c \<and> (\<forall>d \<in> set cs. is_letter d \<or> d \<in> set ''0123456789-_''))"

definition assemble :: "string \<Rightarrow> path \<Rightarrow> node \<Rightarrow> payload" where
  "assemble provider form page =
     (let payload = collect provider (case get_at form page of Some f \<Rightarrow> controls f | None \<Rightarrow> []);
          payload = payload(''dimensions'' \<mapsto> Many (checked_values (provider @ ''-dimensions'') form page))
      in payload(''metrics'' \<mapsto> Many (checked_values (provider @ ''-metrics'') form page)))"

subsection \<open>The handler\<close>

definition with_text :: "element \<Rightarrow> string \<Rightarrow> node" where
  "with_text a s = Elem a (if s = [] then [] else [Text s])"

definition displayResults :: "platform \<Rightarrow> path \<Rightarrow> json \<Rightarrow> string \<Rightarrow> node \<Rightarrow> node" where
  "displayResults env container resultData filename page =
     (let page = set_innerHTML container [] page;
          url = createObjectURL env (stringify env resultData);
          a = with_text ((new_element ''a'')\<lparr>attrs := [(''href'', url), (''download'', filename)]\<rparr>)
                ''Download Results (JSON)'';
          page = appendChild container a page;
          pre = with_text (new_element ''pre'') (stringify env resultData)
      in appendChild container pre page)"

text \<open>
  The handler runs in two parts. The first ends at \<^verbatim>\<open>await fetch(...)\<close> and leaves the
  request: the provider, the status and results elements, the endpoint and the payload.
  An error thrown in it is outside the \<^verbatim>\<open>try\<close> block: the handler stops with the
  error (its promise is rejected) and the page stays as it then is.
\<close>

record request =
  provider :: string
  statusEl :: path
  resultsEl :: path
  endpoint :: "string option"
  sent :: payload

definition className_set :: "string list \<Rightarrow> element \<Rightarrow> element" where
  "className_set cs a = a\<lparr>classes := cs\<rparr>"

text \<open>
  The handler keeps the form it was registered on, and reads the inputs of that form after
  it has written the loading message into the status element and emptied the results
  element. A write to the children of an element above the form takes the form out of the
  page, inside the child of that element that holds it; the inputs of the form and the
  elements above them in that child are then what the selectors of the handler see.

  \<open>held\<close> is the tree that holds the form with the position of the form in it: the page
  at first. \<open>replace_children w new\<close> is the write of the children \<open>new\<close> to the element at
  \<open>w\<close> of that tree, and \<open>follow w f r\<close> is the position after that write of the element
  that was at \<open>r\<close>, when it still is in the tree that holds the form, which was at \<open>f\<close>.
\<close>

type_synonym held = "node \<times> path"

definition replace_children :: "path \<Rightarrow> node list \<Rightarrow> held \<Rightarrow> held" where
  "replace_children w new h =
     (case h of
        (t, f) \<Rightarrow>
          if strict_prefix w f
          then (case get_at (take (Suc (length w)) f) t of
                  Some child \<Rightarrow> (child, drop (Suc (length w)) f)
                | None \<Rightarrow> (t, f))
          else (set_innerHTML w new t, f))"

definition follow :: "path \<Rightarrow> path \<Rightarrow> path \<Rightarrow> path option" where
  "follow w f r =
     (if strict_prefix w f
      then (if prefix (take (Suc (length w)) f) r then Some (drop (Suc (length w)) r) else None)
      else (if strict_prefix w r then None else Some r))"

definition form_held :: "path \<Rightarrow> path \<Rightarrow> path \<Rightarrow> node \<Rightarrow> held" where
  "form_held form st rs page =
     (let h = (set_prop st (className_set [''status'', ''loading'']) page, form);
          h = replace_children st [Text ''Polling in progress... Please wait.''] h
      in case follow st form rs of
           None \<Rightarrow> h
         | Some r \<Rightarrow> replace_children r [] h)"

definition submit_start :: "platform \<Rightarrow> path \<Rightarrow> node \<Rightarrow> (exn \<times> node) + (request \<times> node)" where
  "submit_start env form page =
     (case elem_at form page of
        None \<Rightarrow> Inl (TypeError (null_read_msg env ''id''), page)
      | Some form_el \<Rightarrow>
     (let prov = replace_first ''-form'' [] (ident form_el);
          status = getElementById (prov @ ''-status'') page;
          results = getElementById (prov @ ''-results'') page;
          endp = dataset ''endpoint'' form_el
      in case status of
           None \<Rightarrow> Inl (TypeError (null_write_msg env ''className''), page)
         | Some st \<Rightarrow>
             (let page1 = set_prop st (className_set [''status'', ''loading'']) page;
                  page1 = set_textContent st ''Polling in progress... Please wait.'' page1
              in case results of
                   None \<Rightarrow> Inl (TypeError (null_write_msg env ''innerHTML''), page1)
                 | Some rs \<Rightarrow>
                     (let page2 = set_innerHTML rs [] page1;
                          held = form_held form st rs page
                      in Inr (\<lparr>provider = prov, statusEl = st, resultsEl = rs, endpoint = endp,
                                sent = assemble prov (snd held) (fst held)\<rparr>, page2)))))"

text \<open>The body of the \<^verbatim>\<open>try\<close> block from the reply on: the page it leaves, and the
  error when it throws.\<close>

definition try_block :: "platform \<Rightarrow> request \<Rightarrow> reply \<Rightarrow> node \<Rightarrow> (exn \<times> node) + node" where
  "try_block env rq r page =
     (case r of
        Failed e \<Rightarrow> Inl (e, page)
      | Response status b \<Rightarrow>
          (case b of
             Malformed e \<Rightarrow> Inl (e, page)
           | Decoded result \<Rightarrow>
               if \<not> ok status then Inl (server_error env status result, page)
               else
                 (let page = set_prop (statusEl rq) (className_set [''status'', ''success'']) page
                  in case rowCount env result of
                       Inl e \<Rightarrow> Inl (e, page)
                     | Inr n \<Rightarrow>
                         (case to_str n of
                            None \<Rightarrow> Inl (TypeError (primitive_msg env), page)
                          | Some rows \<Rightarrow>
                              (let page = set_textContent (statusEl rq)
                                            (''Polling successful! Fetched '' @ rows @ '' rows.'') page
                               in Inr (displayResults env (resultsEl rq) result
                                         (provider rq @ ''_report.json'') page))))))"

definition submit_finish :: "platform \<Rightarrow> request \<Rightarrow> reply \<Rightarrow> node \<Rightarrow> node" where
  "submit_finish env rq r page =
     (case try_block env rq r page of
        Inr page \<Rightarrow> page
      | Inl (error, page) \<Rightarrow>
          (let page = set_prop (statusEl rq) (className_set [''status'', ''error'']) page
           in set_textContent (statusEl rq) (''Polling failed: '' @ message error) page))"

definition submit :: "platform \<Rightarrow> path \<Rightarrow> reply \<Rightarrow> node \<Rightarrow> (exn \<times> node) + node" where
  "submit env form r page =
     (case submit_start env form page of
        Inl stopped \<Rightarrow> Inl stopped
      | Inr (rq, page) \<Rightarrow> Inr (submit_finish env rq r page))"

section \<open>What is observed of a page\<close>

text \<open>The checkboxes among the nodes of a panel, in document order.\<close>

definition checkboxes_of :: "node list \<Rightarrow> element list" where
  "checkboxes_of cs = filter (\<lambda>e. tag e = ''input'' \<and> itype e = ''checkbox'') (elements_in cs)"

text \<open>
  The calendar date of a time value: the year, the month from 1 to 12 and the day of the
  month. \<open>current_date\<close> is the date that the first clock reading of \<^verbatim>\<open>setDefaultDates\<close> has in
  local time. \<open>prev_day\<close> is the day before a date and \<open>days_before n\<close> the date \<open>n\<close> days
  before one; \<open>iso_date\<close> writes a date as \<^verbatim>\<open>YYYY-MM-DD\<close>.
\<close>

type_synonym date = "int \<times> int \<times> int"

definition calendar_date :: "int \<Rightarrow> date" where
  "calendar_date t = (YearFromTime t, MonthFromTime t + 1, DateFromTime t)"

definition current_date :: "platform \<Rightarrow> date" where
  "current_date env = calendar_date (LocalTime env (clock1 env))"



definition iso_date :: "date \<Rightarrow> string" where
  "iso_date dt =
     (case dt of (y, m, d) \<Rightarrow> pad 4 (nat y) @ ''-'' @ pad 2 (nat m) @ ''-'' @ pad 2 (nat d))"



text \<open>An element without its class tokens: what the tab handler leaves alone.\<close>

definition core :: "element \<Rightarrow> element" where
  "core a = a\<lparr>classes := []\<rparr>"

text \<open>A pane corresponds to a button when its id is the button's \<^verbatim>\<open>data-tab\<close>: the test
  \<^verbatim>\<open>pane.id === button.dataset.tab\<close> of the handler.\<close>

definition corresponds :: "node \<Rightarrow> path \<Rightarrow> path \<Rightarrow> bool" where
  "corresponds page button pane =
     (case (elem_at pane page, elem_at button page) of
        (Some p, Some b) \<Rightarrow> Some (ident p) = dataset ''tab'' b
      | _ \<Rightarrow> False)"

text \<open>A sequence of clicks on tab buttons, on the page the script was loaded in.\<close>

definition clicks :: "node \<Rightarrow> path list \<Rightarrow> node" where
  "clicks page bs = fold (click (tabButtons page) (tabPanes page)) bs page"

text \<open>The class tokens and the text of the status element.\<close>

definition status_shown :: "path \<Rightarrow> node \<Rightarrow> (string list \<times> string) option" where
  "status_shown p page =
     (case get_at p page of Some (Elem a cs) \<Rightarrow> Some (classes a, textContent (Elem a cs)) | _ \<Rightarrow> None)"

text \<open>
  The page is wired for the form at \<open>form\<close>: the form is there, its provider (the form's
  id without \<^verbatim>\<open>-form\<close>) is a plain name, the status and the results element of the provider
  exist, and neither of the two lies inside the other.
\<close>

definition wired :: "path \<Rightarrow> node \<Rightarrow> string \<Rightarrow> path \<Rightarrow> path \<Rightarrow> bool" where
  "wired form page prov st rs \<longleftrightarrow>
     map_option (\<lambda>f. replace_first ''-form'' [] (ident f)) (elem_at form page) = Some prov \<and>
     css_name prov \<and>
     getElementById (prov @ ''-status'') page = Some st \<and>
     getElementById (prov @ ''-results'') page = Some rs \<and>
     \<not> prefix st rs \<and> \<not> prefix rs st"

text \<open>The two nodes \<^verbatim>\<open>displayResults\<close> puts into the results element.\<close>

definition download_link :: "platform \<Rightarrow> json \<Rightarrow> string \<Rightarrow> node" where
  "download_link env result prov =
     Elem ((new_element ''a'')\<lparr>attrs := [(''href'', createObjectURL env (stringify env result)),
                                         (''download'', prov @ ''_report.json'')]\<rparr>)
       [Text ''Download Results (JSON)'']"

definition preformatted :: "platform \<Rightarrow> json \<Rightarrow> node" where
  "preformatted env result =
     Elem (new_element ''pre'')
       (if stringify env result = [] then [] else [Text (stringify env result)])"

text \<open>
  The element at \<open>q\<close> lies inside an element with the id \<open>x\<close>: an element above it in the
  tree has that id. \<open>checked_inside\<close> lists the values of the checked inputs of the form
  at \<open>f\<close> that lie inside an element with the id \<open>x\<close>, in document order.
\<close>

definition inside_id :: "string \<Rightarrow> path \<Rightarrow> node \<Rightarrow> bool" where
  "inside_id x q t = (\<exists>r \<in> set (prefixes q). r \<noteq> q \<and> map_option ident (elem_at r t) = Some x)"




text \<open>
  The field key in the words of the specification: the provider prefix stripped from the
  identifier, dashes replaced by underscores.
\<close>

definition spec_key :: "string \<Rightarrow> string \<Rightarrow> string" where
  "spec_key prov i =
     replace_char CHR ''-'' CHR ''_''
       (if startsWith i (prov @ ''-'') then drop (length (prov @ ''-'')) i else i)"

text \<open>
  A decoded body for which the handler counts no rows: not \<^verbatim>\<open>null\<close>, not an array, and
  when it is an object whose \<^verbatim>\<open>data\<close> member is truthy, that member is neither an array
  nor an object with a truthy \<^verbatim>\<open>data\<close> member of its own.
\<close>

fun no_rows :: "json \<Rightarrow> bool" where
  "no_rows JNull = False"
| "no_rows (JArr xs) = False"
| "no_rows (JObj kvs) =
     (case map_of kvs ''data'' of
        None \<Rightarrow> True
      | Some (JArr xs) \<Rightarrow> False
      | Some (JObj kvs') \<Rightarrow>
          (case map_of kvs' ''data'' of None \<Rightarrow> True | Some d \<Rightarrow> \<not> truthy_json d)
      | Some d \<Rightarrow> True)"
| "no_rows v = True"

section \<open>A concrete page and platform\<close>

text \<open>A small page in the shape the script expects, with one provider panel, and a
  platform with fixed answers: the clock reads 2026-11-03T08:00:00.000Z and a millisecond
  later, in a time zone two hours ahead of UTC all year. The theorems below are
  instantiated on them.\<close>

definition el :: "string \<Rightarrow> string \<Rightarrow> element" where
  "el t i = (new_element t)\<lparr>ident := i\<rparr>"

definition demo_form :: node where
  "demo_form =
     Elem ((el ''form'' ''gam-form'')\<lparr>attrs := [(''data-endpoint'', ''/poll/gam'')]\<rparr>)
       [Elem ((el ''input'' ''gam-start-date'')\<lparr>itype := ''date''\<rparr>) [],
        Elem ((el ''input'' ''gam-end-date'')\<lparr>itype := ''date''\<rparr>) [],
        Elem ((el ''select'' ''gam-network-code'')\<lparr>itype := ''select-one'', val := ''1234''\<rparr>) [],
        Elem (el ''div'' ''gam-dimensions'') [],
        Elem (el ''div'' ''gam-metrics'') []]"

definition demo_page :: node where
  "demo_page =
     Elem (new_element ''body'')
       [Elem ((new_element ''button'')\<lparr>classes := [''tab-button'', ''active''],
                                          attrs := [(''data-tab'', ''gam'')]\<rparr>) [Text ''GAM''],
        Elem ((new_element ''button'')\<lparr>classes := [''tab-button''],
                                          attrs := [(''data-tab'', ''facebook'')]\<rparr>) [Text ''Facebook''],
        Elem ((el ''div'' ''gam'')\<lparr>classes := [''tab-pane'', ''active'']\<rparr>)
          [demo_form, Elem (el ''div'' ''gam-status'') [], Elem (el ''div'' ''gam-results'') []],
        Elem ((el ''div'' ''facebook'')\<lparr>classes := [''tab-pane'']\<rparr>) []]"

definition demo_env :: platform where
  "demo_env =
     \<lparr>clock1 = 1793692800000, clock2 = 1793692800001,
      LocalTZA = (\<lambda>t b. 7200000),
      stringify = (\<lambda>v. ''<json>''), createObjectURL = (\<lambda>s. ''blob:1''),
      null_read_msg = (\<lambda>name. ''Cannot read properties of null (reading '' @ name @ '')''),
      null_write_msg = (\<lambda>name. ''Cannot set properties of null (setting '' @ name @ '')''),
      primitive_msg = ''Cannot convert object to primitive value'',
      invalid_time_msg = ''Invalid time value''\<rparr>"

text \<open>The same platform half an hour after local midnight: the clock reads
  2026-11-02T22:30:00.000Z, which is the 3rd of November in local time.\<close>

definition night_env :: platform where
  "night_env = demo_env\<lparr>clock1 := 1793658600000, clock2 := 1793658600000\<rparr>"





text \<open>A form with its status element and no results element.\<close>

definition bare_page :: node where
  "bare_page =
     Elem (new_element ''body'')
       [Elem (el ''form'' ''gam-form'') [], Elem (el ''div'' ''gam-status'') []]"

text \<open>A form alone.\<close>

definition lone_page :: node where
  "lone_page = Elem (new_element ''body'') [Elem (el ''form'' ''gam-form'') []]"

text \<open>A page whose form lies inside its status element.\<close>

definition nested_form :: node where
  "nested_form =
     Elem (el ''form'' ''gam-form'')
       [Elem ((el ''input'' ''gam-api-key'')\<lparr>itype := ''text'', val := ''secret''\<rparr>) [],
        Elem (el ''div'' ''gam-metrics'')
          [Elem (new_element ''label'') [Elem (checkbox ''impressions'') [], Text '' impressions'']]]"

definition nested_page :: node where
  "nested_page =
     Elem (new_element ''body'')
       [Elem (el ''div'' ''gam-status'') [Text ''Ready. '', nested_form],
        Elem (el ''div'' ''gam-results'') []]"

section \<open>Facts about the tree\<close>

lemma get_at_update_same: "get_at p (update_at p f t) = map_option f (get_at p t)"
  by (induction p f t rule: update_at.induct) auto

lemma get_at_update_other:
  "\<not> prefix p q \<Longrightarrow> \<not> prefix q p \<Longrightarrow> get_at q (update_at p f t) = get_at q t"
proof (induction p f t arbitrary: q rule: update_at.induct)
  case (1 f n)
  then show ?case by simp
next
  case (2 k p f s)
  then show ?case by simp
next
  case (3 k p f a cs)
  then obtain j q' where q: "q = j # q'" by (cases q) auto
  show ?case
  proof (cases "j = k")
    case True
    with 3 q show ?thesis by auto
  next
    case False
    with q show ?thesis by auto
  qed
qed

lemma update_at_twice: "update_at p f (update_at p g t) = update_at p (f \<circ> g) t"
  by (induction p g t rule: update_at.induct) auto

lemma find_id_in_Some:
  "find_id_in i k cs = Some q \<longleftrightarrow>
     (\<exists>j p. q = (k + j) # p \<and> j < length cs \<and> find_id i (cs ! j) = Some p \<and>
            (\<forall>j' < j. find_id i (cs ! j') = None))"
proof (induction cs arbitrary: k)
  case Nil
  then show ?case by simp
next
  case (Cons c cs)
  show ?case
  proof (cases "find_id i c")
    case None
    have "find_id_in i k (c # cs) = Some q \<longleftrightarrow> find_id_in i (Suc k) cs = Some q"
      using None by simp
    also have "\<dots> \<longleftrightarrow> (\<exists>j p. q = (Suc k + j) # p \<and> j < length cs \<and> find_id i (cs ! j) = Some p \<and>
            (\<forall>j' < j. find_id i (cs ! j') = None))"
      by (rule Cons.IH)
    also have "\<dots> \<longleftrightarrow> (\<exists>j p. q = (k + j) # p \<and> j < length (c # cs) \<and> find_id i ((c # cs) ! j) = Some p \<and>
            (\<forall>j' < j. find_id i ((c # cs) ! j') = None))" (is "?L \<longleftrightarrow> ?R")
    proof
      assume ?L
      then obtain j p where h: "q = (Suc k + j) # p" "j < length cs" "find_id i (cs ! j) = Some p"
        "\<forall>j' < j. find_id i (cs ! j') = None" by blast
      have "\<forall>j' < Suc j. find_id i ((c # cs) ! j') = None"
        using h(4) None by (auto simp: nth_Cons split: nat.splits)
      with h show ?R by (intro exI[of _ "Suc j"] exI[of _ p]) auto
    next
      assume ?R
      then obtain j p where h: "q = (k + j) # p" "j < length (c # cs)" "find_id i ((c # cs) ! j) = Some p"
        "\<forall>j' < j. find_id i ((c # cs) ! j') = None" by blast
      from h(3) None obtain j0 where j0: "j = Suc j0" by (cases j) auto
      have "\<forall>j' < j0. find_id i (cs ! j') = None"
        using h(4) j0 by (metis Suc_less_eq nth_Cons_Suc)
      with h j0 show ?L by (intro exI[of _ j0] exI[of _ p]) auto
    qed
    finally show ?thesis .
  next
    case (Some p0)
    show ?thesis
    proof
      assume "find_id_in i k (c # cs) = Some q"
      with Some have "q = k # p0" by simp
      with Some show "\<exists>j p. q = (k + j) # p \<and> j < length (c # cs) \<and> find_id i ((c # cs) ! j) = Some p \<and>
            (\<forall>j' < j. find_id i ((c # cs) ! j') = None)"
        by (intro exI[of _ 0] exI[of _ p0]) auto
    next
      assume "\<exists>j p. q = (k + j) # p \<and> j < length (c # cs) \<and> find_id i ((c # cs) ! j) = Some p \<and>
            (\<forall>j' < j. find_id i ((c # cs) ! j') = None)"
      then obtain j p where h: "q = (k + j) # p" "j < length (c # cs)" "find_id i ((c # cs) ! j) = Some p"
        "\<forall>j' < j. find_id i ((c # cs) ! j') = None" by blast
      have "j = 0"
      proof (rule ccontr)
        assume "j \<noteq> 0"
        then have "find_id i ((c # cs) ! 0) = None" using h(4) by blast
        with Some show False by simp
      qed
      with h Some show "find_id_in i k (c # cs) = Some q" by simp
    qed
  qed
qed

lemma find_id_update_children:
  "find_id i t = Some p \<Longrightarrow> find_id i (update_at p (map_children g) t) = Some p"
proof (induction p arbitrary: t)
  case Nil
  then show ?case
    by (cases t) (auto split: if_splits simp: find_id_in_Some)
next
  case (Cons j p)
  then obtain a cs where t: "t = Elem a cs" by (cases t) auto
  with Cons.prems have na: "ident a \<noteq> i" and f: "find_id_in i 0 cs = Some (j # p)"
    by (auto split: if_splits)
  from f have j: "j < length cs" and fj: "find_id i (cs ! j) = Some p"
    and before: "\<forall>j' < j. find_id i (cs ! j') = None"
    by (auto simp: find_id_in_Some)
  let ?cs = "cs[j := update_at p (map_children g) (cs ! j)]"
  have "find_id i (?cs ! j) = Some p" using j Cons.IH[OF fj] by simp
  moreover have "\<forall>j' < j. find_id i (?cs ! j') = None" using before by simp
  ultimately have "find_id_in i 0 ?cs = Some (j # p)"
    using j by (auto simp: find_id_in_Some)
  with t na j show ?case by simp
qed

lemma find_id_elem: "find_id i t = Some p \<Longrightarrow> \<exists>a cs. get_at p t = Some (Elem a cs) \<and> ident a = i"
proof (induction p arbitrary: t)
  case Nil
  then show ?case by (cases t) (auto split: if_splits simp: find_id_in_Some)
next
  case (Cons j p)
  then obtain a cs where t: "t = Elem a cs" by (cases t) auto
  with Cons.prems have f: "find_id_in i 0 cs = Some (j # p)"
    by (auto split: if_splits)
  then show ?case using t Cons.IH by (auto simp: find_id_in_Some)
qed

lemma appendChild_set_innerHTML:
  "appendChild p c (set_innerHTML p cs t) = set_innerHTML p (cs @ [c]) t"
proof -
  have "map_children (\<lambda>xs. xs @ [c]) \<circ> map_children (\<lambda>_. cs) = map_children (\<lambda>_. cs @ [c])"
  proof
    fix n show "(map_children (\<lambda>xs. xs @ [c]) \<circ> map_children (\<lambda>_. cs)) n = map_children (\<lambda>_. cs @ [c]) n"
      by (cases n) simp_all
  qed
  then show ?thesis
    by (simp add: appendChild_def set_innerHTML_def update_at_twice)
qed

lemma fold_appendChild:
  "fold (\<lambda>item. appendChild p (g item)) items (set_innerHTML p cs t) =
     set_innerHTML p (cs @ map g items) t"
  by (induction items arbitrary: cs) (simp_all add: appendChild_set_innerHTML)

lemma set_innerHTML_twice: "set_innerHTML p cs (set_innerHTML p cs' t) = set_innerHTML p cs t"
proof -
  have "map_children (\<lambda>_. cs) \<circ> map_children (\<lambda>_. cs') = map_children (\<lambda>_. cs)"
  proof
    fix n show "(map_children (\<lambda>_. cs) \<circ> map_children (\<lambda>_. cs')) n = map_children (\<lambda>_. cs) n"
      by (cases n) simp_all
  qed
  then show ?thesis by (simp add: set_innerHTML_def update_at_twice)
qed

lemma createCheckboxes_found:
  "getElementById cid page = Some p \<Longrightarrow>
     createCheckboxes cid items page = set_innerHTML p (heading cid # map label_for items) page"
  by (simp add: createCheckboxes_def fold_appendChild)

lemma getElementById_set_innerHTML:
  "getElementById i t = Some p \<Longrightarrow> getElementById i (set_innerHTML p cs t) = Some p"
  by (auto simp: getElementById_def set_innerHTML_def find_id_update_children split: if_splits)

lemma children_at_set_innerHTML:
  "get_at p t = Some (Elem a cs) \<Longrightarrow> get_at p (set_innerHTML p new t) = Some (Elem a new)"
  by (simp add: set_innerHTML_def get_at_update_same)

lemma getElementById_elem:
  "getElementById i t = Some p \<Longrightarrow> \<exists>a cs. get_at p t = Some (Elem a cs) \<and> ident a = i"
  by (auto simp: getElementById_def dest: find_id_elem split: if_splits)

lemma checkboxes_of_render: "checkboxes_of (heading cid # map label_for items) = map checkbox items"
proof -
  have "filter (\<lambda>e. tag e = ''input'' \<and> itype e = ''checkbox'') (elements_in (map label_for items)) = map checkbox items"
    by (induction items) (simp_all add: label_for_def checkbox_def new_element_def)
  then show ?thesis
    by (simp add: checkboxes_of_def heading_def new_element_def Let_def)
qed

lemma rendered_panel_facts:
  "length (heading cid # map label_for items) = Suc (length items) \<and>
   (\<forall>k < length items.
      (heading cid # map label_for items) ! Suc k =
        Elem (new_element ''label'')
          [Elem ((new_element ''input'')\<lparr>itype := ''checkbox'', val := items ! k, checked := True\<rparr>) [],
           Text ('' '' @ replace_char CHR ''_'' CHR '' '' (items ! k))]) \<and>
   map val (checkboxes_of (heading cid # map label_for items)) = items \<and>
   (\<forall>b \<in> set (checkboxes_of (heading cid # map label_for items)). checked b) \<and>
   length (checkboxes_of (heading cid # map label_for items)) = length items \<and>
   (\<forall>b \<in> set (checkboxes_of (heading cid # map label_for items)). val b \<in> set items)"
proof -
  let ?cs = "heading cid # map label_for items"
  have v: "map val (checkboxes_of ?cs) = items"
    by (simp add: checkboxes_of_render checkbox_def comp_def)
  have k: "\<forall>b \<in> set (checkboxes_of ?cs). checked b"
    by (auto simp: checkboxes_of_render checkbox_def)
  have m: "\<forall>b \<in> set (checkboxes_of ?cs). val b \<in> set items"
    by (auto simp: checkboxes_of_render checkbox_def)
  have l: "\<forall>k < length items. ?cs ! Suc k =
                Elem (new_element ''label'')
                  [Elem ((new_element ''input'')\<lparr>itype := ''checkbox'', val := items ! k, checked := True\<rparr>) [],
                   Text ('' '' @ replace_char CHR ''_'' CHR '' '' (items ! k))]"
    by (simp add: label_for_def checkbox_def)
  show ?thesis
    using v k m l by (simp add: checkboxes_of_render)
qed

lemma elem_at_set_prop:
  "elem_at q (set_prop p f t) = (if q = p then map_option f (elem_at q t) else elem_at q t)"
  unfolding set_prop_def elem_at_def
proof (induction p "map_element f" t arbitrary: q rule: update_at.induct)
  case (1 n)
  then show ?case by (cases n; cases q) auto
next
  case (2 k p s)
  then show ?case by (cases q) auto
next
  case (3 k p a cs)
  show ?case
  proof (cases q)
    case Nil
    then show ?thesis by simp
  next
    case (Cons j q')
    show ?thesis
    proof (cases "k < length cs")
      case True
      then show ?thesis using Cons 3[OF True, of q'] by (cases "j = k") auto
    next
      case False
      then show ?thesis using Cons by auto
    qed
  qed
qed


lemma select_in_iff:
  "q \<in> set (select_in P k cs) \<longleftrightarrow>
     (\<exists>j p. q = (k + j) # p \<and> j < length cs \<and> p \<in> set (select P (cs ! j)))"
proof (induction cs arbitrary: k)
  case Nil
  then show ?case by simp
next
  case (Cons c cs)
  show ?case (is "?L \<longleftrightarrow> ?R")
  proof
    assume ?L
    then consider p where "q = k # p" "p \<in> set (select P c)" | "q \<in> set (select_in P (Suc k) cs)"
      by auto
    then show ?R
    proof cases
      case 1
      then show ?thesis by (intro exI[of _ 0] exI[of _ p]) auto
    next
      case 2
      then obtain j p where "q = (Suc k + j) # p" "j < length cs" "p \<in> set (select P (cs ! j))"
        using Cons.IH by blast
      then show ?thesis by (intro exI[of _ "Suc j"] exI[of _ p]) auto
    qed
  next
    assume ?R
    then obtain j p where h: "q = (k + j) # p" "j < length (c # cs)" "p \<in> set (select P ((c # cs) ! j))"
      by blast
    show ?L
    proof (cases j)
      case 0
      with h show ?thesis by auto
    next
      case (Suc j0)
      with h have "q = (Suc k + j0) # p" "j0 < length cs" "p \<in> set (select P (cs ! j0))" by auto
      then have "q \<in> set (select_in P (Suc k) cs)" using Cons.IH by blast
      then show ?thesis by simp
    qed
  qed
qed

lemma select_iff: "q \<in> set (select P t) \<longleftrightarrow> (\<exists>a. elem_at q t = Some a \<and> P a)"
proof (induction q arbitrary: t)
  case Nil
  show ?case by (cases t) (auto simp: elem_at_def select_in_iff)
next
  case (Cons j q)
  show ?case
  proof (cases t)
    case (Text s)
    then show ?thesis by (simp add: elem_at_def)
  next
    case (Elem a cs)
    have "(j # q) \<in> set (select P t) \<longleftrightarrow> (j # q) \<in> set (select_in P 0 cs)"
      using Elem by auto
    also have "\<dots> \<longleftrightarrow> (j < length cs \<and> q \<in> set (select P (cs ! j)))"
      by (auto simp: select_in_iff)
    also have "\<dots> \<longleftrightarrow> (j < length cs \<and> (\<exists>a. elem_at q (cs ! j) = Some a \<and> P a))"
      using Cons.IH by simp
    also have "\<dots> \<longleftrightarrow> (\<exists>a. elem_at (j # q) t = Some a \<and> P a)"
      using Elem by (auto simp: elem_at_def)
    finally show ?thesis .
  qed
qed

lemma distinct_select: "distinct (select P t)"
  and distinct_select_in: "distinct (select_in P k cs)"
proof (induction P t and P k cs rule: select_select_in.induct)
  case (1 P s)
  then show ?case by simp
next
  case (2 P a cs)
  have "[] \<notin> set (select_in P 0 cs)" by (auto simp: select_in_iff)
  with 2 show ?case by simp
next
  case (3 P k)
  then show ?case by simp
next
  case (4 P k c cs)
  have "set (map ((#) k) (select P c)) \<inter> set (select_in P (Suc k) cs) = {}"
    by (auto simp: select_in_iff)
  with 4 show ?case by (simp add: distinct_map)
qed

lemma core_classList [simp]:
  "core (classList_add c a) = core a" "core (classList_remove c a) = core a"
  by (simp_all add: core_def classList_add_def classList_remove_def)

lemma core_eq_fields: "core a = core b \<Longrightarrow> ident a = ident b \<and> attrs a = attrs b"
  by (cases a; cases b) (simp add: core_def)

lemma core_set_prop:
  "(\<And>a. core (f a) = core a) \<Longrightarrow>
     map_option core (elem_at q (set_prop p f t)) = map_option core (elem_at q t)"
  by (cases "elem_at q t") (auto simp: elem_at_set_prop)

lemma core_fold_set_prop:
  "(\<And>a. core (f a) = core a) \<Longrightarrow>
     map_option core (elem_at q (fold (\<lambda>p. set_prop p f) ps t)) = map_option core (elem_at q t)"
  by (induction ps arbitrary: t) (simp_all add: core_set_prop)

lemma core_pane_step:
  "map_option core (elem_at q (pane_step b p t)) = map_option core (elem_at q t)"
  by (simp add: pane_step_def core_set_prop split: option.splits)

lemma core_fold_pane_step:
  "map_option core (elem_at q (fold (pane_step b) ps t)) = map_option core (elem_at q t)"
  by (induction ps arbitrary: t) (simp_all add: core_pane_step)

lemma core_click:
  "map_option core (elem_at q (click bs ps b t)) = map_option core (elem_at q t)"
  by (simp add: click_def Let_def core_fold_pane_step core_set_prop core_fold_set_prop)

lemma core_clicks_fold:
  "map_option core (elem_at q (fold (click bs ps) xs t)) = map_option core (elem_at q t)"
  by (induction xs arbitrary: t) (simp_all add: core_click)

lemma corresponds_core:
  assumes "\<And>q. map_option core (elem_at q t') = map_option core (elem_at q t)"
  shows "corresponds t' b p = corresponds t b p"
proof -
  have b: "map_option core (elem_at b t') = map_option core (elem_at b t)"
    and p: "map_option core (elem_at p t') = map_option core (elem_at p t)"
    using assms by blast+
  show ?thesis
  proof (cases "elem_at p t"; cases "elem_at b t")
    fix pa ba assume h: "elem_at p t = Some pa" "elem_at b t = Some ba"
    with b p obtain pa' ba' where h': "elem_at p t' = Some pa'" "elem_at b t' = Some ba'"
      "core pa' = core pa" "core ba' = core ba" by auto
    then show ?thesis using h
      by (auto simp: corresponds_def dataset_def dest!: core_eq_fields)
  qed (use b p in \<open>auto simp: corresponds_def split: option.splits\<close>)
qed

lemma is_active_pane_step_other:
  "q \<noteq> p \<Longrightarrow> elem_at q (pane_step b p t) = elem_at q t"
  by (simp add: pane_step_def elem_at_set_prop split: option.splits)

lemma is_active_pane_step_same:
  assumes "elem_at p t \<noteq> None" "elem_at b t \<noteq> None"
  shows "is_active (pane_step b p t) p = corresponds t b p"
proof -
  from assms obtain pa ba where h: "elem_at p t = Some pa" "elem_at b t = Some ba" by auto
  show ?thesis
  proof (cases "Some (ident pa) = dataset ''tab'' ba")
    case True
    with h show ?thesis
      by (simp add: pane_step_def is_active_def corresponds_def elem_at_set_prop has_class_def
          classList_add_def)
  next
    case False
    with h show ?thesis
      by (simp add: pane_step_def is_active_def corresponds_def elem_at_set_prop has_class_def
          classList_remove_def)
  qed
qed

lemma elem_at_fold_pane_step_other:
  "q \<notin> set ps \<Longrightarrow> elem_at q (fold (pane_step b) ps t) = elem_at q t"
  by (induction ps arbitrary: t) (simp_all add: is_active_pane_step_other)

lemma is_active_fold_pane_step:
  assumes "distinct ps" "q \<in> set ps" "elem_at q t \<noteq> None" "elem_at b t \<noteq> None"
  shows "is_active (fold (pane_step b) ps t) q = corresponds t b q"
  using assms
proof (induction ps arbitrary: t)
  case Nil
  then show ?case by simp
next
  case (Cons p ps)
  let ?t = "pane_step b p t"
  have same: "\<And>x. map_option core (elem_at x ?t) = map_option core (elem_at x t)"
    by (rule core_pane_step)
  show ?case
  proof (cases "q = p")
    case True
    then have "q \<notin> set ps" using Cons.prems by simp
    then have "elem_at q (fold (pane_step b) ps ?t) = elem_at q ?t"
      by (rule elem_at_fold_pane_step_other)
    then have "is_active (fold (pane_step b) ps ?t) q = is_active ?t q"
      by (simp add: is_active_def)
    with True Cons.prems show ?thesis by (simp add: is_active_pane_step_same)
  next
    case False
    with Cons.prems have q: "q \<in> set ps" "distinct ps" by auto
    have "elem_at q ?t \<noteq> None" "elem_at b ?t \<noteq> None"
      using same[of q] same[of b] Cons.prems by auto
    then have "is_active (fold (pane_step b) ps ?t) q = corresponds ?t b q"
      using Cons.IH q by blast
    then show ?thesis using corresponds_core[OF same] by simp
  qed
qed

lemma is_active_click:
  assumes "distinct ps" "q \<in> set ps" "elem_at q t \<noteq> None" "elem_at b t \<noteq> None"
  shows "is_active (click bs ps b t) q = corresponds t b q"
proof -
  let ?t = "set_prop b (classList_add ''active'') (fold (\<lambda>btn. set_prop btn (classList_remove ''active'')) bs t)"
  have same: "\<And>x. map_option core (elem_at x ?t) = map_option core (elem_at x t)"
    by (simp add: core_set_prop core_fold_set_prop)
  have "elem_at q ?t \<noteq> None" "elem_at b ?t \<noteq> None"
    using same[of q] same[of b] assms by auto
  then have "is_active (fold (pane_step b) ps ?t) q = corresponds ?t b q"
    using assms by (intro is_active_fold_pane_step) auto
  then show ?thesis using corresponds_core[OF same] by (simp add: click_def Let_def)
qed

lemma length_filter_unique:
  assumes "distinct xs" "\<exists>!x. x \<in> set xs \<and> P x"
  shows "length (filter P xs) = 1"
proof -
  from assms(2) obtain x where x: "x \<in> set xs" "P x"
    and u: "\<forall>y. y \<in> set xs \<and> P y \<longrightarrow> y = x"
    by (elim ex1E) blast
  have s: "set (filter P xs) = {x}"
  proof (intro equalityI subsetI)
    fix y assume "y \<in> set (filter P xs)"
    then have "y \<in> set xs \<and> P y" by simp
    then show "y \<in> {x}" using u by blast
  next
    fix y assume "y \<in> {x}"
    then show "y \<in> set (filter P xs)" using x by simp
  qed
  have d: "distinct (filter P xs)" using assms(1) by simp
  have "length (filter P xs) = card (set (filter P xs))"
    by (rule distinct_card[OF d, symmetric])
  also have "\<dots> = card {x}" by (simp only: s)
  also have "\<dots> = 1" by simp
  finally show ?thesis .
qed

lemma get_at_set_prop_same:
  "get_at p (set_prop p f t) = map_option (map_element f) (get_at p t)"
  by (simp add: set_prop_def get_at_update_same)

lemma get_at_set_textContent_same:
  "get_at p (set_textContent p s t) =
     map_option (map_children (\<lambda>_. if s = [] then [] else [Text s])) (get_at p t)"
  by (simp add: set_textContent_def get_at_update_same)

lemma get_at_set_innerHTML_same:
  "get_at p (set_innerHTML p cs t) = map_option (map_children (\<lambda>_. cs)) (get_at p t)"
  by (simp add: set_innerHTML_def get_at_update_same)

lemma get_at_appendChild_same:
  "get_at p (appendChild p c t) = map_option (map_children (\<lambda>cs. cs @ [c])) (get_at p t)"
  by (simp add: appendChild_def get_at_update_same)

lemma get_at_other:
  assumes "\<not> prefix p q" "\<not> prefix q p"
  shows "get_at q (set_prop p f t) = get_at q t"
    "get_at q (set_textContent p s t) = get_at q t"
    "get_at q (set_innerHTML p cs t) = get_at q t"
    "get_at q (appendChild p c t) = get_at q t"
  using assms
  by (simp_all add: set_prop_def set_textContent_def set_innerHTML_def appendChild_def
      get_at_update_other)

lemma textContent_with_text: "textContent (Elem a (if s = [] then [] else [Text s])) = s"
  by simp

lemma submit_start_wired:
  assumes "wired form page prov st rs"
  shows "\<exists>rq pg. submit_start env form page = Inr (rq, pg) \<and>
           provider rq = prov \<and> statusEl rq = st \<and> resultsEl rq = rs \<and>
           (\<exists>a. get_at st pg = Some (Elem a [Text ''Polling in progress... Please wait.''])) \<and>
           (\<exists>b. get_at rs pg = Some (Elem b []))"
proof -
  from assms obtain f where f: "elem_at form page = Some f"
    and prov: "prov = replace_first ''-form'' [] (ident f)"
    and st: "getElementById (prov @ ''-status'') page = Some st"
    and rs: "getElementById (prov @ ''-results'') page = Some rs"
    and inc: "\<not> prefix st rs" "\<not> prefix rs st"
    by (auto simp: wired_def)
  from st obtain a cs where a: "get_at st page = Some (Elem a cs)"
    by (auto dest: getElementById_elem)
  from rs obtain b ds where b: "get_at rs page = Some (Elem b ds)"
    by (auto dest: getElementById_elem)
  let ?pg = "set_innerHTML rs []
               (set_textContent st ''Polling in progress... Please wait.''
                 (set_prop st (className_set [''status'', ''loading'']) page))"
  let ?rq = "\<lparr>provider = prov, statusEl = st, resultsEl = rs, endpoint = dataset ''endpoint'' f,
              sent = assemble prov (snd (form_held form st rs page))
                       (fst (form_held form st rs page))\<rparr>"
  have "submit_start env form page = Inr (?rq, ?pg)"
    using f prov st rs by (simp add: submit_start_def Let_def)
  moreover have "get_at st ?pg =
      Some (Elem (className_set [''status'', ''loading''] a) [Text ''Polling in progress... Please wait.''])"
    using a inc
    by (simp add: get_at_other get_at_set_textContent_same get_at_set_prop_same)
  moreover have "get_at rs ?pg = Some (Elem b [])"
    using b inc
    by (simp add: get_at_other get_at_set_innerHTML_same)
  ultimately show ?thesis by auto
qed

lemma finish_failed:
  assumes "try_block env rq r pg = Inl (e, pg')"
    and "get_at (statusEl rq) pg' = Some (Elem a cs)"
    and "get_at (resultsEl rq) pg' = Some (Elem b [])"
    and "\<not> prefix (statusEl rq) (resultsEl rq)" "\<not> prefix (resultsEl rq) (statusEl rq)"
  shows "status_shown (statusEl rq) (submit_finish env rq r pg) =
           Some ([''status'', ''error''], ''Polling failed: '' @ message e) \<and>
         children_at (resultsEl rq) (submit_finish env rq r pg) = Some []"
  using assms
  by (simp add: submit_finish_def status_shown_def children_at_def className_set_def
      get_at_other get_at_set_textContent_same get_at_set_prop_same)

lemma try_block_throws:
  "try_block env rq (Failed e) pg = Inl (e, pg)"
  "try_block env rq (Response status (Malformed e)) pg = Inl (e, pg)"
  "\<not> ok status \<Longrightarrow>
     try_block env rq (Response status (Decoded result)) pg = Inl (server_error env status result, pg)"
  by (simp_all add: try_block_def)

lemma finish_succeeded:
  assumes "ok status" "rowCount env result = Inr n" "to_str n = Some rows"
    and "get_at (statusEl rq) pg = Some (Elem a cs)"
    and "get_at (resultsEl rq) pg = Some (Elem b ds)"
    and "\<not> prefix (statusEl rq) (resultsEl rq)" "\<not> prefix (resultsEl rq) (statusEl rq)"
  shows "status_shown (statusEl rq) (submit_finish env rq (Response status (Decoded result)) pg) =
           Some ([''status'', ''success''], ''Polling successful! Fetched '' @ rows @ '' rows.'') \<and>
         children_at (resultsEl rq) (submit_finish env rq (Response status (Decoded result)) pg) =
           Some [download_link env result (provider rq), preformatted env result]"
  using assms
  by (simp add: submit_finish_def try_block_def displayResults_def Let_def status_shown_def
      children_at_def className_set_def with_text_def download_link_def preformatted_def
      get_at_other get_at_set_textContent_same get_at_set_prop_same get_at_set_innerHTML_same
      get_at_appendChild_same)





lemma checked_under_subset:
  "set (checked_under x b n) \<subseteq> val ` {e \<in> set (elements n). is_checked e}"
  "set (checked_under_in x b cs) \<subseteq> val ` {e \<in> set (elements_in cs). is_checked e}"
  by (induction x b n and x b cs rule: checked_under_checked_under_in.induct) auto

lemma checked_values_subset:
  "get_at form page = Some (Elem a cs) \<Longrightarrow>
     set (checked_values x form page) \<subseteq> val ` {e \<in> set (elements_in cs). is_checked e}"
  by (simp add: checked_values_def checked_under_subset)


section \<open>Facts about the submit handler\<close>

lemma submit_thrown:
  assumes w: "wired form page prov st rs"
    and t: "\<And>rq pg. try_block env rq r pg = Inl (e, pg)"
  shows "\<exists>page'. submit env form r page = Inr page' \<and>
           status_shown st page' = Some ([''status'', ''error''], ''Polling failed: '' @ message e) \<and>
           children_at rs page' = Some []"
proof -
  from submit_start_wired[OF w, of env] obtain rq pg a b where
    s: "submit_start env form page = Inr (rq, pg)" "statusEl rq = st" "resultsEl rq = rs"
      "get_at st pg = Some (Elem a [Text ''Polling in progress... Please wait.''])"
      "get_at rs pg = Some (Elem b [])"
    by blast
  from w have inc: "\<not> prefix st rs" "\<not> prefix rs st" by (simp_all add: wired_def)
  from finish_failed[OF t[of rq pg]] s inc
  have "status_shown st (submit_finish env rq r pg) =
          Some ([''status'', ''error''], ''Polling failed: '' @ message e) \<and>
        children_at rs (submit_finish env rq r pg) = Some []"
    by simp
  with s(1) show ?thesis by (simp add: submit_def)
qed

lemma submit_succeeded:
  assumes w: "wired form page prov st rs"
    and k: "ok status" "rowCount env result = Inr n" "to_str n = Some rows"
  shows "\<exists>page'. submit env form (Response status (Decoded result)) page = Inr page' \<and>
           status_shown st page' =
             Some ([''status'', ''success''], ''Polling successful! Fetched '' @ rows @ '' rows.'') \<and>
           children_at rs page' = Some [download_link env result prov, preformatted env result]"
proof -
  from submit_start_wired[OF w, of env] obtain rq pg a b where
    s: "submit_start env form page = Inr (rq, pg)" "provider rq = prov" "statusEl rq = st"
      "resultsEl rq = rs"
      "get_at st pg = Some (Elem a [Text ''Polling in progress... Please wait.''])"
      "get_at rs pg = Some (Elem b [])"
    by blast
  from w have inc: "\<not> prefix st rs" "\<not> prefix rs st" by (simp_all add: wired_def)
  from finish_succeeded[OF k, of rq pg] s inc
  have "status_shown st (submit_finish env rq (Response status (Decoded result)) pg) =
          Some ([''status'', ''success''], ''Polling successful! Fetched '' @ rows @ '' rows.'') \<and>
        children_at rs (submit_finish env rq (Response status (Decoded result)) pg) =
          Some [download_link env result prov, preformatted env result]"
    by simp
  with s(1) show ?thesis by (simp add: submit_def)
qed

lemma rowCount_array: "rowCount env (JArr rows) = Inr (Count (length rows))"
  by (simp add: rowCount_def)

lemma rowCount_data_array:
  "map_of kvs ''data'' = Some (JArr rows) \<Longrightarrow> rowCount env (JObj kvs) = Inr (Count (length rows))"
  by (simp add: rowCount_def)

lemma rowCount_no_rows: "no_rows result \<Longrightarrow> rowCount env result = Inr (Count 0)"
proof (cases result)
  case (JObj kvs)
  assume n: "no_rows result"
  show ?thesis
  proof (cases "map_of kvs ''data''")
    case None
    with JObj show ?thesis by (simp add: rowCount_def)
  next
    case (Some d)
    show ?thesis
    proof (cases "truthy_json d")
      case False
      with JObj Some show ?thesis by (simp add: rowCount_def)
    next
      case True
      with JObj Some n show ?thesis
        by (cases d) (auto simp: rowCount_def split: option.splits)
    qed
  qed
qed (simp_all add: rowCount_def)

lemma server_error_string:
  "map_of kvs ''error'' = Some (JStr s) \<Longrightarrow> s \<noteq> [] \<Longrightarrow>
     server_error env status (JObj kvs) = Error s"
  by (simp add: server_error_def)

lemma server_error_null:
  "server_error env status JNull = TypeError (null_read_msg env ''error'')"
  by (simp add: server_error_def)

lemma wired_demo: "wired [2, 0] demo_page ''gam'' [2, 1] [2, 2]"
  by (simp add: wired_def elem_at_def getElementById_def demo_page_def demo_form_def el_def
      new_element_def startsWith_def css_name_def is_letter_def)

lemma show_nat_small:
  "show_nat 0 = ''0''" "show_nat 2 = ''2''" "show_nat 3 = ''3''" "show_nat (Suc (Suc 0)) = ''2''"
  by (simp_all add: show_nat.simps digit_def numeral_2_eq_2 numeral_3_eq_3)

lemma demo_env_fields:
  "stringify demo_env v = ''<json>''"
  "createObjectURL demo_env s = ''blob:1''"
  "null_read_msg demo_env name = ''Cannot read properties of null (reading '' @ name @ '')''"
  "null_write_msg demo_env name = ''Cannot set properties of null (setting '' @ name @ '')''"
  by (simp_all add: demo_env_def)


text \<open>Every failed submission shows the message of the error that was thrown, and leaves
  the results element empty.\<close>

lemma failed_submission_shown:
  assumes "wired form page prov st rs"
    and "r = Failed e \<or> (\<exists>status. r = Response status (Malformed e)) \<or>
         (\<exists>status result. r = Response status (Decoded result) \<and> \<not> ok status \<and>
                          e = server_error env status result)"
  shows "\<exists>page'. submit env form r page = Inr page' \<and>
           status_shown st page' = Some ([''status'', ''error''], ''Polling failed: '' @ message e) \<and>
           children_at rs page' = Some []"
proof -
  have "try_block env rq r pg = Inl (e, pg)" for rq pg
    using assms(2) by (auto simp: try_block_throws)
  from submit_thrown[OF assms(1) this] show ?thesis .
qed

lemma server_error_fallback:
  assumes "result \<noteq> JNull"
    and "\<And>kvs v. result = JObj kvs \<Longrightarrow> map_of kvs ''error'' = Some v \<Longrightarrow> \<not> truthy_json v"
  shows "server_error env status result = Error (''Server responded with status '' @ show_nat status)"
proof (cases result)
  case (JObj kvs)
  then show ?thesis
    using assms(2) by (cases "map_of kvs ''error''") (simp_all add: server_error_def)
qed (use assms(1) in \<open>simp_all add: server_error_def\<close>)

lemma createCheckboxes_missing:
  "getElementById cid page = None \<Longrightarrow> createCheckboxes cid items page = page"
  by (simp add: createCheckboxes_def)

text \<open>Where the key of the handler is the key of the specification: when the id starts
  with the provider and a dash.\<close>

lemma field_key_prefix:
  "startsWith i (prov @ ''-'') \<Longrightarrow> field_key prov i = spec_key prov i"
  by (cases i) (simp_all add: field_key_def spec_key_def startsWith_def)

text \<open>A 2xx reply whose body is \<^verbatim>\<open>null\<close>: reading \<^verbatim>\<open>result.data\<close> throws, after the status
  element was given the class \<^verbatim>\<open>success\<close>, and the submission ends as a failure.\<close>

lemma null_body_2xx:
  assumes w: "wired form page prov st rs" and k: "ok status"
  shows "\<exists>page'. submit env form (Response status (Decoded JNull)) page = Inr page' \<and>
           status_shown st page' =
             Some ([''status'', ''error''], ''Polling failed: '' @ null_read_msg env ''data'') \<and>
           children_at rs page' = Some []"
proof -
  from submit_start_wired[OF w, of env] obtain rq pg a b where
    s: "submit_start env form page = Inr (rq, pg)" "statusEl rq = st" "resultsEl rq = rs"
      "get_at st pg = Some (Elem a [Text ''Polling in progress... Please wait.''])"
      "get_at rs pg = Some (Elem b [])"
    by blast
  from w have inc: "\<not> prefix st rs" "\<not> prefix rs st" by (simp_all add: wired_def)
  let ?pg = "set_prop st (className_set [''status'', ''success'']) pg"
  have t: "try_block env rq (Response status (Decoded JNull)) pg =
             Inl (TypeError (null_read_msg env ''data''), ?pg)"
    using k s(2) by (simp add: try_block_def rowCount_def)
  have g1: "get_at (statusEl rq) ?pg =
              Some (Elem (className_set [''status'', ''success''] a)
                      [Text ''Polling in progress... Please wait.''])"
    using s by (simp add: get_at_set_prop_same)
  have g2: "get_at (resultsEl rq) ?pg = Some (Elem b [])"
    using s inc by (simp add: get_at_other)
  from finish_failed[OF t g1 g2] s inc
  have "status_shown st (submit_finish env rq (Response status (Decoded JNull)) pg) =
          Some ([''status'', ''error''], ''Polling failed: '' @ null_read_msg env ''data'') \<and>
        children_at rs (submit_finish env rq (Response status (Decoded JNull)) pg) = Some []"
    by simp
  with s(1) show ?thesis by (simp add: submit_def)
qed

section \<open>Facts about the population loop\<close>

lemma populate_panels:
  "populate page = fold (\<lambda>(cid, items). createCheckboxes cid items) panels page"
proof -
  have "fold (\<lambda>(cid, items). createCheckboxes cid items)
          (concat (map (\<lambda>(provider, dims, mets).
                    [(provider @ ''-dimensions'', dims), (provider @ ''-metrics'', mets)]) ds)) pg
        = fold (\<lambda>(provider, dims, mets) pg.
             createCheckboxes (provider @ ''-metrics'') mets
               (createCheckboxes (provider @ ''-dimensions'') dims pg)) ds pg" for ds pg
    by (induction ds arbitrary: pg) auto
  then show ?thesis by (simp add: populate_def panels_def)
qed

lemma get_at_append: "get_at (p @ s) t = Option.bind (get_at p t) (get_at s)"
  by (induction p t rule: get_at.induct) auto

lemma get_at_update_prefix:
  "get_at q (update_at (q @ r) f t) = map_option (update_at r f) (get_at q t)"
  by (induction q t rule: get_at.induct) auto

lemma root_update_children:
  "(case update_at r (map_children g) n of Elem a cs \<Rightarrow> Some a | Text s \<Rightarrow> None) =
   (case n of Elem a cs \<Rightarrow> Some a | Text s \<Rightarrow> None)"
  by (cases r; cases n) auto

lemma elem_at_update_children_outside:
  assumes "\<not> strict_prefix p q"
  shows "elem_at q (update_at p (map_children g) t) = elem_at q t"
proof (cases "prefix q p")
  case True
  then obtain r where r: "p = q @ r" by (auto simp: prefix_def)
  show ?thesis
    unfolding elem_at_def r get_at_update_prefix
    using root_update_children[of r g]
    by (cases "get_at q t") (auto split: node.splits)
next
  case False
  moreover have "\<not> prefix p q" using assms False by (auto simp: strict_prefix_def)
  ultimately show ?thesis by (simp add: elem_at_def get_at_update_other)
qed

lemma get_at_elements: "get_at r n = Some (Elem a cs) \<Longrightarrow> a \<in> set (elements n)"
  and get_at_elements_in: "k < length ns \<Longrightarrow> get_at r (ns ! k) = Some (Elem a cs) \<Longrightarrow> a \<in> set (elements_in ns)"
proof (induction n and ns arbitrary: r a cs and k r a cs rule: elements_elements_in.induct)
  case (1 s)
  then show ?case by (cases r) auto
next
  case (2 b bs)
  then show ?case by (cases r) (auto split: if_splits)
next
  case 3
  then show ?case by simp
next
  case (4 c cs')
  then show ?case by (cases k) auto
qed

lemma elem_at_update_children_inside:
  assumes "strict_prefix p q" "elem_at q (update_at p (map_children (\<lambda>_. new)) t) = Some a"
  shows "a \<in> set (elements_in new)"
proof -
  from assms(1) obtain k r where q: "q = p @ k # r"
    by (auto simp: strict_prefix_def prefix_def) (metis list.exhaust append_Nil2)
  from assms(2) obtain cs where g: "get_at q (update_at p (map_children (\<lambda>_. new)) t) = Some (Elem a cs)"
    by (auto simp: elem_at_def split: option.splits node.splits)
  then obtain n where n: "get_at p t = Some n" "get_at (k # r) (map_children (\<lambda>_. new) n) = Some (Elem a cs)"
    unfolding q get_at_append get_at_update_same by (cases "get_at p t") auto
  then obtain b bs where "n = Elem b bs" by (cases n) auto
  with n(2) have "k < length new" "get_at r (new ! k) = Some (Elem a cs)"
    by (auto split: if_splits)
  then show ?thesis by (rule get_at_elements_in)
qed

lemma find_id_in_None:
  "find_id_in i k cs = None \<longleftrightarrow> (\<forall>c \<in> set cs. find_id i c = None)"
  by (induction cs arbitrary: k) (auto split: option.splits)

lemma find_id_None_update:
  assumes "\<forall>n \<in> set new. find_id i n = None" "find_id i t = None"
  shows "find_id i (update_at p (map_children (\<lambda>_. new)) t) = None"
  using assms(2)
proof (induction p arbitrary: t)
  case Nil
  then show ?case using assms(1)
    by (cases t) (auto simp: find_id_in_None split: if_splits)
next
  case (Cons k p)
  show ?case
  proof (cases t)
    case (Text s)
    then show ?thesis by simp
  next
    case (Elem a cs)
    with Cons.prems have na: "ident a \<noteq> i" and all: "\<forall>c \<in> set cs. find_id i c = None"
      by (auto simp: find_id_in_None split: if_splits)
    show ?thesis
    proof (cases "k < length cs")
      case True
      then have "find_id i (update_at p (map_children (\<lambda>_. new)) (cs ! k)) = None"
        using all Cons.IH by simp
      then have "\<forall>c \<in> set (cs[k := update_at p (map_children (\<lambda>_. new)) (cs ! k)]). find_id i c = None"
        using all by (auto dest!: set_update_subset_insert[THEN subsetD])
      with Elem na True show ?thesis by (simp add: find_id_in_None)
    next
      case False
      with Elem Cons.prems show ?thesis by simp
    qed
  qed
qed

lemma find_id_update_other:
  assumes "\<forall>n \<in> set new. find_id i n = None"
    and "find_id i t = Some q" "\<not> prefix p q" "\<not> prefix q p"
  shows "find_id i (update_at p (map_children (\<lambda>_. new)) t) = Some q"
  using assms(2-4)
proof (induction p arbitrary: t q)
  case Nil
  then show ?case by simp
next
  case (Cons k p)
  from Cons.prems(1) obtain a cs where t: "t = Elem a cs" by (cases t) auto
  from Cons.prems(1,3) t have na: "ident a \<noteq> i" and f: "find_id_in i 0 cs = Some q"
    by (auto split: if_splits)
  from f obtain j q' where q: "q = j # q'" and j: "j < length cs"
    and fj: "find_id i (cs ! j) = Some q'"
    and before: "\<forall>j' < j. find_id i (cs ! j') = None"
    by (auto simp: find_id_in_Some)
  show ?case
  proof (cases "k < length cs")
    case False
    with t Cons.prems(1) show ?thesis by simp
  next
    case True
    let ?u = "update_at p (map_children (\<lambda>_. new)) (cs ! k)"
    let ?cs = "cs[k := ?u]"
    have at_j: "find_id i (?cs ! j) = Some q'"
    proof (cases "j = k")
      case True
      with Cons.prems(2,3) q have "\<not> prefix p q'" "\<not> prefix q' p" by auto
      with fj True have "find_id i ?u = Some q'" using Cons.IH by blast
      with True j show ?thesis by simp
    next
      case False
      with fj show ?thesis by simp
    qed
    have earlier: "\<forall>j' < j. find_id i (?cs ! j') = None"
    proof (intro allI impI)
      fix j' assume l: "j' < j"
      show "find_id i (?cs ! j') = None"
      proof (cases "j' = k")
        case True
        with before l have "find_id i (cs ! k) = None" by blast
        then have "find_id i ?u = None" by (rule find_id_None_update[OF assms(1)])
        with True l j show ?thesis by simp
      next
        case False
        with before l show ?thesis by simp
      qed
    qed
    have "find_id_in i 0 ?cs = Some (j # q')"
      using j at_j earlier by (auto simp: find_id_in_Some)
    with t na True q show ?thesis by simp
  qed
qed

lemma rendered_no_ids:
  "\<forall>e \<in> set (elements_in (heading c # map label_for items)). ident e = []"
proof -
  have "\<forall>e \<in> set (elements_in (map label_for items)). ident e = []"
    by (induction items) (auto simp: label_for_def checkbox_def new_element_def)
  then show ?thesis by (auto simp: heading_def Let_def new_element_def)
qed

lemma find_id_elements:
  "\<forall>e \<in> set (elements n). ident e \<noteq> i \<Longrightarrow> find_id i n = None"
  "\<forall>e \<in> set (elements_in ns). ident e \<noteq> i \<Longrightarrow> find_id_in i k ns = None"
  by (induction i n and i k ns rule: find_id_find_id_in.induct) auto

lemma rendered_not_found:
  assumes "i \<noteq> []"
  shows "\<forall>n \<in> set (heading c # map label_for items). find_id i n = None"
proof -
  have "\<forall>e \<in> set (elements_in (heading c # map label_for items)). ident e \<noteq> i"
    using rendered_no_ids assms by metis
  then have "find_id_in i 0 (heading c # map label_for items) = None"
    by (rule find_id_elements)
  then show ?thesis by (simp only: find_id_in_None)
qed

text \<open>What one call leaves alone: the panel found under another id, and every element that
  carries an id.\<close>

lemma createCheckboxes_keeps_ids:
  assumes "elem_at q (createCheckboxes c its pg) = Some a" "ident a \<noteq> []"
  shows "elem_at q pg = Some a"
proof (cases "getElementById c pg")
  case None
  with assms show ?thesis by (simp add: createCheckboxes_def)
next
  case (Some p')
  let ?new = "heading c # map label_for its"
  have eq: "createCheckboxes c its pg = update_at p' (map_children (\<lambda>_. ?new)) pg"
    using Some by (simp add: createCheckboxes_found set_innerHTML_def)
  show ?thesis
  proof (cases "strict_prefix p' q")
    case True
    from elem_at_update_children_inside[OF True assms(1)[unfolded eq]]
    have "ident a = []" using rendered_no_ids by blast
    with assms(2) show ?thesis by simp
  next
    case False
    from elem_at_update_children_outside[OF False] assms(1) show ?thesis by (simp add: eq)
  qed
qed

lemma createCheckboxes_other:
  assumes found: "getElementById cid pg = Some p"
    and apart: "\<forall>q a. elem_at q pg = Some a \<and> ident a = c \<longrightarrow> \<not> prefix p q \<and> \<not> prefix q p"
  shows "getElementById cid (createCheckboxes c its pg) = Some p"
    and "get_at p (createCheckboxes c its pg) = get_at p pg"
proof -
  have both: "getElementById cid (createCheckboxes c its pg) = Some p \<and>
              get_at p (createCheckboxes c its pg) = get_at p pg"
  proof (cases "getElementById c pg")
    case None
    with found show ?thesis by (simp add: createCheckboxes_def)
  next
    case (Some p')
    let ?new = "heading c # map label_for its"
    have eq: "createCheckboxes c its pg = update_at p' (map_children (\<lambda>_. ?new)) pg"
      using Some by (simp add: createCheckboxes_found set_innerHTML_def)
    from Some obtain a cs where "get_at p' pg = Some (Elem a cs)" "ident a = c"
      by (auto dest: getElementById_elem)
    then have "elem_at p' pg = Some a \<and> ident a = c" by (simp add: elem_at_def)
    with apart have inc: "\<not> prefix p p'" "\<not> prefix p' p" by blast+
    from found have ne: "cid \<noteq> []" and f: "find_id cid pg = Some p"
      by (auto simp: getElementById_def split: if_splits)
    have "find_id cid (update_at p' (map_children (\<lambda>_. ?new)) pg) = Some p"
      using rendered_not_found[OF ne] f inc by (intro find_id_update_other) auto
    moreover have "get_at p (update_at p' (map_children (\<lambda>_. ?new)) pg) = get_at p pg"
      using inc by (simp add: get_at_update_other)
    ultimately show ?thesis using ne by (simp add: eq getElementById_def)
  qed
  from both show "getElementById cid (createCheckboxes c its pg) = Some p" by simp
  from both show "get_at p (createCheckboxes c its pg) = get_at p pg" by simp
qed

lemma fold_others:
  assumes "getElementById cid pg = Some p"
    and "\<forall>c \<in> fst ` set js. c \<noteq> [] \<and>
           (\<forall>q a. elem_at q pg = Some a \<and> ident a = c \<longrightarrow> \<not> prefix p q \<and> \<not> prefix q p)"
  shows "getElementById cid (fold (\<lambda>(c, its). createCheckboxes c its) js pg) = Some p \<and>
         get_at p (fold (\<lambda>(c, its). createCheckboxes c its) js pg) = get_at p pg \<and>
         (\<forall>q a. elem_at q (fold (\<lambda>(c, its). createCheckboxes c its) js pg) = Some a \<and> ident a \<noteq> []
                \<longrightarrow> elem_at q pg = Some a)"
  using assms
proof (induction js arbitrary: pg)
  case Nil
  then show ?case by simp
next
  case (Cons j js)
  obtain c its where j: "j = (c, its)" by (cases j)
  let ?pg = "createCheckboxes c its pg"
  have apart_c: "\<forall>q a. elem_at q pg = Some a \<and> ident a = c \<longrightarrow> \<not> prefix p q \<and> \<not> prefix q p"
    using Cons.prems(2) j by simp
  have found': "getElementById cid ?pg = Some p" and same: "get_at p ?pg = get_at p pg"
    using createCheckboxes_other[OF Cons.prems(1) apart_c] by blast+
  have keep: "elem_at q pg = Some a" if "elem_at q ?pg = Some a" "ident a \<noteq> []" for q a
    using that by (rule createCheckboxes_keeps_ids)
  have rest: "\<forall>c' \<in> fst ` set js. c' \<noteq> [] \<and>
           (\<forall>q a. elem_at q pg = Some a \<and> ident a = c' \<longrightarrow> \<not> prefix p q \<and> \<not> prefix q p)"
    using Cons.prems(2) by auto
  have apart': "\<forall>c' \<in> fst ` set js. c' \<noteq> [] \<and>
           (\<forall>q a. elem_at q ?pg = Some a \<and> ident a = c' \<longrightarrow> \<not> prefix p q \<and> \<not> prefix q p)"
  proof (intro ballI conjI allI impI)
    fix c' assume c': "c' \<in> fst ` set js"
    then show "c' \<noteq> []" using rest by blast
  next
    fix c' q a assume c': "c' \<in> fst ` set js" and h: "elem_at q ?pg = Some a \<and> ident a = c'"
    have ne: "c' \<noteq> []" using c' rest by blast
    with h have "elem_at q pg = Some a" using keep by blast
    with h c' rest show "\<not> prefix p q" by blast
  next
    fix c' q a assume c': "c' \<in> fst ` set js" and h: "elem_at q ?pg = Some a \<and> ident a = c'"
    have ne: "c' \<noteq> []" using c' rest by blast
    with h have "elem_at q pg = Some a" using keep by blast
    with h c' rest show "\<not> prefix q p" by blast
  qed
  from Cons.IH[OF found' apart']
  have ih: "getElementById cid (fold (\<lambda>(c, its). createCheckboxes c its) js ?pg) = Some p"
    "get_at p (fold (\<lambda>(c, its). createCheckboxes c its) js ?pg) = get_at p ?pg"
    "\<forall>q a. elem_at q (fold (\<lambda>(c, its). createCheckboxes c its) js ?pg) = Some a \<and> ident a \<noteq> []
                \<longrightarrow> elem_at q ?pg = Some a"
    by blast+
  show ?case
    using ih same keep by (auto simp: j)
qed

lemma panel_ids:
  "map fst panels =
     [''admob-dimensions'', ''admob-metrics'', ''gam-dimensions'', ''gam-metrics'',
      ''applovin-dimensions'', ''applovin-metrics'', ''chartboost-dimensions'',
      ''chartboost-metrics'', ''facebook-dimensions'', ''facebook-metrics'',
      ''fyber-dimensions'', ''fyber-metrics'', ''hyprmx-dimensions'', ''hyprmx-metrics'',
      ''inmobi-dimensions'', ''inmobi-metrics'']"
  by (simp add: panels_def definitions_def)

lemma distinct_panel_ids: "distinct (map fst panels)"
  unfolding panel_ids by simp

lemma panel_ids_nonempty: "c \<in> fst ` set panels \<Longrightarrow> c \<noteq> []"
proof -
  assume "c \<in> fst ` set panels"
  then have "c \<in> set (map fst panels)" by simp
  then show ?thesis unfolding panel_ids by auto
qed

lemma populate_panel:
  assumes job: "(cid, items) \<in> set panels"
    and found: "getElementById cid page = Some p"
    and apart: "\<forall>c \<in> fst ` set panels. c \<noteq> cid \<longrightarrow>
                  (\<forall>q a. elem_at q page = Some a \<and> ident a = c \<longrightarrow> \<not> prefix p q \<and> \<not> prefix q p)"
  shows "children_at p (populate page) = Some (heading cid # map label_for items)"
proof -
  let ?job = "\<lambda>(c, its). createCheckboxes c its"
  from job obtain js1 js2 where split: "panels = js1 @ (cid, items) # js2"
    by (auto dest: split_list)
  have d: "distinct (map fst (js1 @ (cid, items) # js2))"
    using distinct_panel_ids by (simp only: split)
  then have n1: "cid \<notin> fst ` set js1" and n2: "cid \<notin> fst ` set js2" by auto
  have o1: "\<forall>c \<in> fst ` set js1. c \<noteq> [] \<and>
           (\<forall>q a. elem_at q page = Some a \<and> ident a = c \<longrightarrow> \<not> prefix p q \<and> \<not> prefix q p)"
  proof
    fix c assume c: "c \<in> fst ` set js1"
    then have "c \<in> fst ` set panels" "c \<noteq> cid" using n1 by (auto simp: split)
    then show "c \<noteq> [] \<and>
           (\<forall>q a. elem_at q page = Some a \<and> ident a = c \<longrightarrow> \<not> prefix p q \<and> \<not> prefix q p)"
      using apart panel_ids_nonempty by blast
  qed
  let ?pg1 = "fold ?job js1 page"
  from fold_others[OF found o1]
  have f1: "getElementById cid ?pg1 = Some p"
    and k1: "\<forall>q a. elem_at q ?pg1 = Some a \<and> ident a \<noteq> [] \<longrightarrow> elem_at q page = Some a"
    by blast+
  let ?pg2 = "createCheckboxes cid items ?pg1"
  from f1 obtain a cs where g: "get_at p ?pg1 = Some (Elem a cs)"
    by (auto dest: getElementById_elem)
  have f2: "getElementById cid ?pg2 = Some p"
    using f1 by (simp add: createCheckboxes_found getElementById_set_innerHTML)
  have c2: "get_at p ?pg2 = Some (Elem a (heading cid # map label_for items))"
    using f1 g by (simp add: createCheckboxes_found children_at_set_innerHTML)
  have k2: "elem_at q page = Some b" if "elem_at q ?pg2 = Some b" "ident b \<noteq> []" for q b
  proof -
    from that have "elem_at q ?pg1 = Some b" by (rule createCheckboxes_keeps_ids)
    with that(2) k1 show ?thesis by blast
  qed
  have o2: "\<forall>c \<in> fst ` set js2. c \<noteq> [] \<and>
           (\<forall>q a. elem_at q ?pg2 = Some a \<and> ident a = c \<longrightarrow> \<not> prefix p q \<and> \<not> prefix q p)"
  proof
    fix c assume c: "c \<in> fst ` set js2"
    then have m: "c \<in> fst ` set panels" "c \<noteq> cid" using n2 by (auto simp: split)
    then have ne: "c \<noteq> []" using panel_ids_nonempty by blast
    have "\<not> prefix p q \<and> \<not> prefix q p" if "elem_at q ?pg2 = Some b \<and> ident b = c" for q b
    proof -
      from that ne have "elem_at q page = Some b" using k2 by blast
      with that m apart show ?thesis by blast
    qed
    with ne show "c \<noteq> [] \<and>
           (\<forall>q a. elem_at q ?pg2 = Some a \<and> ident a = c \<longrightarrow> \<not> prefix p q \<and> \<not> prefix q p)"
      by blast
  qed
  from fold_others[OF f2 o2]
  have "get_at p (fold ?job js2 ?pg2) = get_at p ?pg2" by blast
  moreover have "populate page = fold ?job js2 ?pg2"
    by (simp add: populate_panels split)
  ultimately show ?thesis using c2 by (simp add: children_at_def)
qed

section \<open>Facts about the checked inputs of a panel\<close>

lemma checked_under_inside:
  "checked_under x True n = map val (filter is_checked (elements n))"
  "checked_under_in x True ns = map val (filter is_checked (elements_in ns))"
  by (induction x "True" n and x "True" ns rule: checked_under_checked_under_in.induct) auto

lemma checked_under_absent:
  "\<forall>e \<in> set (elements n). ident e \<noteq> x \<Longrightarrow> checked_under x False n = []"
  "\<forall>e \<in> set (elements_in ns). ident e \<noteq> x \<Longrightarrow> checked_under_in x False ns = []"
  by (induction x "False" n and x "False" ns rule: checked_under_checked_under_in.induct) auto

lemma checked_under_in_concat:
  "checked_under_in x b ns = concat (map (checked_under x b) ns)"
  by (induction ns) auto

lemma concat_map_empty: "\<forall>c \<in> set cs. f c = [] \<Longrightarrow> concat (map f cs) = []"
  by (induction cs) auto

lemma elements_in_nth: "k < length ns \<Longrightarrow> set (elements (ns ! k)) \<subseteq> set (elements_in ns)"
proof (induction ns arbitrary: k)
  case Nil
  then show ?case by simp
next
  case (Cons n ns)
  then show ?case by (cases k) auto
qed

lemma elements_elem_at: "a \<in> set (elements n) \<Longrightarrow> \<exists>q. elem_at q n = Some a"
  and elements_in_elem_at: "a \<in> set (elements_in ns) \<Longrightarrow> \<exists>k q. k < length ns \<and> elem_at q (ns ! k) = Some a"
proof (induction n and ns rule: elements_elements_in.induct)
  case (1 s)
  then show ?case by simp
next
  case (2 b bs)
  show ?case
  proof (cases "a = b")
    case True
    then show ?thesis by (intro exI[of _ "[]"]) (simp add: elem_at_def)
  next
    case False
    with 2 obtain k q where "k < length bs" "elem_at q (bs ! k) = Some a" by auto
    then show ?thesis by (intro exI[of _ "k # q"]) (simp add: elem_at_def)
  qed
next
  case 3
  then show ?case by simp
next
  case (4 c cs)
  from 4(3) consider "a \<in> set (elements c)" | "a \<in> set (elements_in cs)" by auto
  then show ?case
  proof cases
    case 1
    with 4 obtain q where "elem_at q c = Some a" by blast
    then show ?thesis by (intro exI[of _ 0] exI[of _ q]) simp
  next
    case 2
    with 4 obtain k q where "k < length cs" "elem_at q (cs ! k) = Some a" by blast
    then show ?thesis by (intro exI[of _ "Suc k"] exI[of _ q]) simp
  qed
qed

text \<open>The panel is the only element with its id in the subtree: the selector collects the
  checked inputs inside the panel.\<close>

lemma checked_under_unique:
  assumes "get_at r n = Some (Elem pa pcs)" "ident pa = x"
    and "\<forall>q a. elem_at q n = Some a \<and> ident a = x \<longrightarrow> q = r"
  shows "checked_under x False n = map val (filter is_checked (elements_in pcs))"
  using assms
proof (induction r arbitrary: n)
  case Nil
  then show ?case by (simp add: checked_under_inside)
next
  case (Cons k r)
  from Cons.prems(1) obtain b bs where n: "n = Elem b bs" and k: "k < length bs"
    and g: "get_at r (bs ! k) = Some (Elem pa pcs)"
    by (cases n) (auto split: if_splits)
  have "elem_at [] n = Some b" using n by (simp add: elem_at_def)
  with Cons.prems(3) have nb: "ident b \<noteq> x" by auto
  have uk: "\<forall>q a. elem_at q (bs ! k) = Some a \<and> ident a = x \<longrightarrow> q = r"
  proof (intro allI impI)
    fix q a assume "elem_at q (bs ! k) = Some a \<and> ident a = x"
    then have "elem_at (k # q) n = Some a \<and> ident a = x" using n k by (simp add: elem_at_def)
    with Cons.prems(3) show "q = r" by blast
  qed
  have at_k: "checked_under x False (bs ! k) = map val (filter is_checked (elements_in pcs))"
    using Cons.IH[OF g Cons.prems(2) uk] .
  have others: "checked_under x False (bs ! j) = []" if "j < length bs" "j \<noteq> k" for j
  proof (rule checked_under_absent(1), rule ballI)
    fix e assume e: "e \<in> set (elements (bs ! j))"
    show "ident e \<noteq> x"
    proof
      assume "ident e = x"
      from elements_elem_at[OF e] obtain q where "elem_at q (bs ! j) = Some e" by blast
      then have "elem_at (j # q) n = Some e" using n that(1) by (simp add: elem_at_def)
      with \<open>ident e = x\<close> Cons.prems(3) have "j # q = k # r" by blast
      with that(2) show False by simp
    qed
  qed
  have "concat (map (checked_under x False) bs) = checked_under x False (bs ! k)"
  proof -
    have bs: "bs = take k bs @ bs ! k # drop (Suc k) bs" using k by (simp add: id_take_nth_drop)
    have t: "\<forall>c \<in> set (take k bs). checked_under x False c = []"
    proof
      fix c assume "c \<in> set (take k bs)"
      then obtain j where "j < k" "c = bs ! j" using k
        by (auto simp: in_set_conv_nth)
      with others k show "checked_under x False c = []" by simp
    qed
    have d: "\<forall>c \<in> set (drop (Suc k) bs). checked_under x False c = []"
    proof
      fix c assume "c \<in> set (drop (Suc k) bs)"
      then obtain j where "j < length bs - Suc k" "c = bs ! (Suc k + j)"
        by (auto simp: in_set_conv_nth)
      with others[of "Suc k + j"] show "checked_under x False c = []" by simp
    qed
    have t': "concat (map (checked_under x False) (take k bs)) = []"
      by (rule concat_map_empty[OF t])
    have d': "concat (map (checked_under x False) (drop (Suc k) bs)) = []"
      by (rule concat_map_empty[OF d])
    have "concat (map (checked_under x False) (take k bs @ bs ! k # drop (Suc k) bs))
            = checked_under x False (bs ! k)"
      unfolding map_append concat_append list.map concat.simps t' d' by simp
    with bs show ?thesis by simp
  qed
  with n nb at_k show ?case by (simp add: checked_under_in_concat)
qed

lemma checked_values_panel:
  assumes "get_at form page = Some (Elem f cs)"
    and "r \<noteq> []" "get_at r (Elem f cs) = Some (Elem pa pcs)" "ident pa = x"
    and "\<forall>q a. elem_at q (Elem f cs) = Some a \<and> ident a = x \<longrightarrow> q = r"
    and "\<not> on_path (\<lambda>e. ident e = x) form page"
  shows "checked_values x form page = map val (filter is_checked (elements_in pcs))"
proof -
  have "elem_at [] (Elem f cs) = Some f" by (simp add: elem_at_def)
  with assms(2,5) have nf: "ident f \<noteq> x" by auto
  have "checked_under x False (Elem f cs) = map val (filter is_checked (elements_in pcs))"
    using assms(3-5) by (rule checked_under_unique)
  with nf have "checked_under_in x False cs = map val (filter is_checked (elements_in pcs))"
    by simp
  with assms(1,6) show ?thesis by (simp add: checked_values_def)
qed

section \<open>Facts about the calendar\<close>

lemma div_step:
  fixes a k :: int
  assumes "0 < k"
  shows "(a + 1) div k = a div k + (if (a + 1) mod k = 0 then 1 else 0)"
proof -
  have r: "0 \<le> a mod k" "a mod k < k" using assms by simp_all
  have a: "a + 1 = k * (a div k) + (a mod k + 1)" by simp
  show ?thesis
  proof (cases "a mod k + 1 = k")
    case True
    have "k * (a div k) + a mod k = a" by (rule mult_div_mod_eq)
    with True have "a + 1 = k * (a div k) + k" by linarith
    then have e: "a + 1 = k * (a div k + 1)" by (simp add: algebra_simps)
    have "(a + 1) div k = a div k + 1" using assms by (subst e) simp
    moreover have "(a + 1) mod k = 0" by (subst e) simp
    ultimately show ?thesis by simp
  next
    case False
    with r have lt: "a mod k + 1 < k" by simp
    have d: "(a + 1) div k = a div k"
      by (rule int_div_pos_eq[where r = "a mod k + 1"]) (use a r lt in auto)
    have m: "(a + 1) mod k = a mod k + 1"
      by (rule int_mod_pos_eq[where q = "a div k"]) (use a r lt in auto)
    from d m r show ?thesis by simp
  qed
qed

lemma mod_shift:
  "(y - 1968) mod 4 = y mod 4" "(y - 1900) mod 100 = y mod 100" "(y - 1600) mod 400 = y mod (400::int)"
proof -
  have "(y + 4 * (- 492)) mod 4 = y mod 4" by (rule mod_mult_self2)
  then show "(y - 1968) mod 4 = y mod 4" by simp
  have "(y + 100 * (- 19)) mod 100 = y mod 100" by (rule mod_mult_self2)
  then show "(y - 1900) mod 100 = y mod 100" by simp
  have "(y + 400 * (- 4)) mod 400 = y mod 400" by (rule mod_mult_self2)
  then show "(y - 1600) mod 400 = y mod 400" by simp
qed

lemma mod_100_4: "y mod 100 = 0 \<Longrightarrow> y mod 4 = (0::int)"
proof -
  assume h: "y mod 100 = 0"
  have "y mod 100 mod 4 = y mod 4" by (rule mod_mod_cancel) simp
  with h show ?thesis by simp
qed

lemma mod_400_100: "y mod 400 = 0 \<Longrightarrow> y mod 100 = (0::int)"
proof -
  assume h: "y mod 400 = 0"
  have "y mod 400 mod 100 = y mod 100" by (rule mod_mod_cancel) simp
  with h show ?thesis by simp
qed

lemma DayFromYear_step: "DayFromYear (y + 1) = DayFromYear y + DaysInYear y"
proof -
  have a: "(y + 1 - 1969) div 4 = (y - 1969) div 4 + (if y mod 4 = 0 then 1 else 0)"
    using div_step[of 4 "y - 1969"] mod_shift(1)[of y] by (simp add: algebra_simps)
  have b: "(y + 1 - 1901) div 100 = (y - 1901) div 100 + (if y mod 100 = 0 then 1 else 0)"
    using div_step[of 100 "y - 1901"] mod_shift(2)[of y] by (simp add: algebra_simps)
  have c: "(y + 1 - 1601) div 400 = (y - 1601) div 400 + (if y mod 400 = 0 then 1 else 0)"
    using div_step[of 400 "y - 1601"] mod_shift(3)[of y] by (simp add: algebra_simps)
  have e: "365 * (y + 1 - 1970) = 365 * (y - 1970) + (365::int)" by simp
  show ?thesis
    unfolding DayFromYear_def DaysInYear_def a b c e
    using mod_100_4[of y] mod_400_100[of y] by auto
qed

lemma DaysInYear_cases: "DaysInYear y = 365 \<or> DaysInYear y = 366"
  by (simp add: DaysInYear_def)

lemma DayFromYear_less: "DayFromYear y < DayFromYear (y + 1)"
  using DaysInYear_cases[of y] by (auto simp: DayFromYear_step)

lemma DayFromYear_mono: "y \<le> y' \<Longrightarrow> DayFromYear y \<le> DayFromYear y'"
proof (induction y' rule: int_ge_induct)
  case base
  show ?case by simp
next
  case (step i)
  with DayFromYear_less[of i] show ?case by simp
qed

lemma DayFromYear_1970: "DayFromYear 1970 = 0"
  by (simp add: DayFromYear_def)

lemma year_up_bounds:
  "DayFromYear y \<le> d \<Longrightarrow> DayFromYear (year_up d y) \<le> d \<and> d < DayFromYear (year_up d y + 1)"
proof (induction d y rule: year_up.induct)
  case (1 d y)
  show ?case
  proof (cases "DayFromYear (y + 1) \<le> d")
    case True
    then have "year_up d y = year_up d (y + 1)" by (subst year_up.simps) simp
    with 1(1)[OF True True] show ?thesis by simp
  next
    case False
    then have "year_up d y = y" by (subst year_up.simps) simp
    with False 1(2) show ?thesis by simp
  qed
qed

lemma year_down_bounds:
  "d < DayFromYear (y + 1) \<Longrightarrow>
     DayFromYear (year_down d y) \<le> d \<and> d < DayFromYear (year_down d y + 1)"
proof (induction d y rule: year_down.induct)
  case (1 d y)
  show ?case
  proof (cases "d < DayFromYear y")
    case True
    then have "year_down d y = year_down d (y - 1)" by (subst year_down.simps) simp
    with 1(1)[OF True] True show ?thesis by simp
  next
    case False
    then have "year_down d y = y" by (subst year_down.simps) simp
    with False 1(2) show ?thesis by simp
  qed
qed

lemma YearFromTime_bounds:
  "DayFromYear (YearFromTime t) \<le> Day t" "Day t < DayFromYear (YearFromTime t + 1)"
proof -
  have "DayFromYear (YearFromTime t) \<le> Day t \<and> Day t < DayFromYear (YearFromTime t + 1)"
  proof (cases "0 \<le> Day t")
    case True
    then show ?thesis
      using year_up_bounds[of 1970 "Day t"] by (simp add: YearFromTime_def DayFromYear_1970)
  next
    case False
    then show ?thesis
      using year_down_bounds[of "Day t" 1969] by (simp add: YearFromTime_def DayFromYear_1970)
  qed
  then show "DayFromYear (YearFromTime t) \<le> Day t" "Day t < DayFromYear (YearFromTime t + 1)"
    by simp_all
qed

lemma year_unique:
  assumes "DayFromYear y \<le> d" "d < DayFromYear (y + 1)"
    and "DayFromYear y' \<le> d" "d < DayFromYear (y' + 1)"
  shows "y = y'"
proof (rule ccontr)
  assume "y \<noteq> y'"
  then consider "y + 1 \<le> y'" | "y' + 1 \<le> y" by linarith
  then show False
  proof cases
    case 1
    from DayFromYear_mono[OF 1] assms show False by simp
  next
    case 2
    from DayFromYear_mono[OF 2] assms show False by simp
  qed
qed

lemma YearFromTime_eq:
  "DayFromYear y \<le> Day t \<Longrightarrow> Day t < DayFromYear (y + 1) \<Longrightarrow> YearFromTime t = y"
  using year_unique[OF YearFromTime_bounds] by blast


lemma DayWithinYear_range:
  "0 \<le> DayWithinYear t" "DayWithinYear t < DaysInYear (YearFromTime t)"
  using YearFromTime_bounds[of t] by (simp_all add: DayWithinYear_def DayFromYear_step)

lemma InLeapYear_cases: "InLeapYear t = 0 \<or> InLeapYear t = 1"
  by (simp add: InLeapYear_def)

lemma DayWithinYear_upper: "DayWithinYear t < 365 + InLeapYear t"
  using DayWithinYear_range(2)[of t] DaysInYear_cases[of "YearFromTime t"]
  by (auto simp: InLeapYear_def)

lemma MonthFromTime_range: "0 \<le> MonthFromTime t" "MonthFromTime t \<le> 11"
  by (simp_all add: MonthFromTime_def Let_def)


lemma leap_iff: "DaysInYear y = 366 \<longleftrightarrow> (y mod 400 = 0 \<or> (y mod 4 = 0 \<and> y mod 100 \<noteq> 0))"
  using mod_100_4[of y] mod_400_100[of y] by (auto simp: DaysInYear_def)





lemma Day_of_day: "Day (d * msPerDay) = d"
  by (simp add: Day_def msPerDay_def)


lemma digit_facts:
  assumes "k < 10"
  shows "is_digit (digit k)" "digit_value (digit k) = k" "digit k \<noteq> CHR ''T''"
proof -
  from assms have "k \<in> {0, 1, 2, 3, 4, 5, 6, 7, 8, 9}" by auto
  then show "is_digit (digit k)" "digit_value (digit k) = k" "digit k \<noteq> CHR ''T''"
    by (auto simp: digit_def is_digit_def digit_value_def)
qed

lemma pad_digits: "c \<in> set (pad n k) \<Longrightarrow> is_digit c \<and> c \<noteq> CHR ''T''"
  by (induction n arbitrary: k) (auto simp: digit_facts)

lemma length_pad [simp]: "length (pad n k) = n"
  by (induction n arbitrary: k) auto

lemma number_of_snoc: "number_of (s @ [c]) = 10 * number_of s + digit_value c"
  by (simp add: number_of_def)

lemma number_of_pad: "number_of (pad n k) = k mod 10 ^ n"
proof (induction n arbitrary: k)
  case 0
  show ?case by (simp add: number_of_def)
next
  case (Suc n)
  have "number_of (pad (Suc n) k) = 10 * (k div 10 mod 10 ^ n) + k mod 10"
    by (simp add: number_of_snoc Suc digit_facts)
  also have "\<dots> = k mod (10 * 10 ^ n)" by (simp add: mod_mult2_eq)
  finally show ?case by simp
qed

lemma pad_2: "pad 2 k = [digit (k div 10 mod 10), digit (k mod 10)]"
  by (simp add: numeral_2_eq_2)

lemma takeWhile_date_part:
  assumes "\<And>x. x \<in> set a \<Longrightarrow> x \<noteq> CHR ''T''" "\<And>x. x \<in> set b \<Longrightarrow> x \<noteq> CHR ''T''"
    "\<And>x. x \<in> set c \<Longrightarrow> x \<noteq> CHR ''T''"
  shows "takeWhile (\<lambda>c. c \<noteq> CHR ''T'') (a @ CHR ''-'' # b @ CHR ''-'' # c @ CHR ''T'' # r) =
           a @ CHR ''-'' # b @ CHR ''-'' # c"
proof -
  have 3: "takeWhile (\<lambda>c. c \<noteq> CHR ''T'') (c @ CHR ''T'' # r) = c"
    using assms(3) by (induction c) auto
  have 2: "takeWhile (\<lambda>c. c \<noteq> CHR ''T'') (b @ CHR ''-'' # c @ CHR ''T'' # r) = b @ CHR ''-'' # c"
    using assms(2) 3 by (induction b) auto
  show ?thesis using assms(1) 2 by (induction a) auto
qed

lemma year_string_chars: "x \<in> set (year_string y) \<Longrightarrow> x \<noteq> CHR ''T''"
  by (auto simp: year_string_def dest: pad_digits split: if_splits)

lemma formatDate_date:
  "formatDate env (Some t) =
     Inr (year_string (YearFromTime t) @ ''-'' @ pad 2 (nat (MonthFromTime t + 1)) @ ''-'' @
          pad 2 (nat (DateFromTime t)))"
proof -
  have p: "x \<in> set (pad 2 k) \<Longrightarrow> x \<noteq> CHR ''T''" for x k
    using pad_digits[of x 2 k] by simp
  show ?thesis
    by (simp add: formatDate_def toISOString_def takeWhile_date_part[OF year_string_chars p p])
qed

lemma valid_iso_date:
  assumes "1 \<le> y" "y \<le> 9999" "1 \<le> m" "m \<le> 12" "1 \<le> d" "d \<le> month_length y m"
  shows "valid_date_string (iso_date (y, m, d))"
proof -
  let ?y = "pad 4 (nat y)"
  let ?r = "[CHR ''-'', digit (nat m div 10 mod 10), digit (nat m mod 10),
             CHR ''-'', digit (nat d div 10 mod 10), digit (nat d mod 10)]"
  have s: "iso_date (y, m, d) = ?y @ ?r" by (simp add: iso_date_def pad_2)
  have dig: "\<forall>c \<in> set ?y. is_digit c" by (auto dest: pad_digits)
  have nd: "\<not> is_digit CHR ''-''" by (simp add: is_digit_def)
  have t: "takeWhile is_digit (?y @ ?r) = ?y" using dig nd by (simp add: takeWhile_append2)
  have r: "dropWhile is_digit (?y @ ?r) = ?r" using dig nd by (simp add: dropWhile_append2)
  have ny: "number_of ?y = nat y" using assms(1,2) by (simp add: number_of_pad)
  have d31: "d \<le> 31" using assms(6) by (simp add: month_length_def split: if_splits)
  have nm: "number_of [digit (nat m div 10 mod 10), digit (nat m mod 10)] = nat m"
    using number_of_pad[of 2 "nat m"] assms(3,4) by (simp add: pad_2)
  have nday: "number_of [digit (nat d div 10 mod 10), digit (nat d mod 10)] = nat d"
    using number_of_pad[of 2 "nat d"] assms(5) d31 by (simp add: pad_2)
  have m10: "nat m div 10 mod 10 < 10" "nat m mod 10 < 10"
    and d10: "nat d div 10 mod 10 < 10" "nat d mod 10 < 10" by simp_all
  have "valid_date_string (?y @ ?r) \<longleftrightarrow>
          1 \<le> nat y \<and> 1 \<le> nat m \<and> nat m \<le> 12 \<and> 1 \<le> nat d \<and>
          int (nat d) \<le> month_length (int (nat y)) (int (nat m))"
    by (simp only: valid_date_string_def t r Let_def list.case nm nday ny length_pad
        digit_facts(1)[OF m10(1)] digit_facts(1)[OF m10(2)]
        digit_facts(1)[OF d10(1)] digit_facts(1)[OF d10(2)]) auto
  moreover have "1 \<le> nat y" "1 \<le> nat m" "nat m \<le> 12" "1 \<le> nat d"
    using assms by linarith+
  moreover have "int (nat d) \<le> month_length (int (nat y)) (int (nat m))"
    using assms by simp
  ultimately show ?thesis unfolding s by blast
qed

section \<open>Facts about the default dates\<close>

lemma date_range:
  "1 \<le> DateFromTime t" "DateFromTime t \<le> month_length (YearFromTime t) (MonthFromTime t + 1)"
proof -
  let ?y = "YearFromTime t"
  have lc: "InLeapYear t = 0 \<or> InLeapYear t = 1" by (rule InLeapYear_cases)
  have ly: "InLeapYear t = 1 \<longleftrightarrow> (?y mod 400 = 0 \<or> (?y mod 4 = 0 \<and> ?y mod 100 \<noteq> 0))"
    using leap_iff[of ?y] by (simp add: InLeapYear_def)
  have lo: "0 \<le> DayWithinYear t" by (rule DayWithinYear_range)
  have up: "DayWithinYear t < 365 + InLeapYear t" by (rule DayWithinYear_upper)
  have "1 \<le> DateFromTime t \<and> DateFromTime t \<le> month_length ?y (MonthFromTime t + 1)"
  proof (cases "InLeapYear t = 1")
    case True
    with ly have m: "month_length ?y 2 = 29" by (simp add: month_length_def)
    show ?thesis
      using lo up True m
      by (simp add: MonthFromTime_def DateFromTime_def Let_def month_length_def)
  next
    case False
    with lc have z: "InLeapYear t = 0" by simp
    with ly have m: "month_length ?y 2 = 28" by (simp add: month_length_def)
    show ?thesis
      using lo up z m
      by (simp add: MonthFromTime_def DateFromTime_def Let_def month_length_def)
  qed
  then show "1 \<le> DateFromTime t" "DateFromTime t \<le> month_length ?y (MonthFromTime t + 1)"
    by simp_all
qed







lemma iso_format:
  assumes "1 \<le> YearFromTime t" "YearFromTime t \<le> 9999"
  shows "formatDate env (Some t) = Inr (iso_date (calendar_date t))"
    and "sanitize_date (iso_date (calendar_date t)) = iso_date (calendar_date t)"
proof -
  show "formatDate env (Some t) = Inr (iso_date (calendar_date t))"
    using assms by (simp add: formatDate_date iso_date_def calendar_date_def year_string_def)
  have "valid_date_string (iso_date (YearFromTime t, MonthFromTime t + 1, DateFromTime t))"
    using assms MonthFromTime_range[of t] date_range[of t] by (intro valid_iso_date) simp_all
  then show "sanitize_date (iso_date (calendar_date t)) = iso_date (calendar_date t)"
    by (simp add: sanitize_date_def calendar_date_def)
qed






lemma pad_numeral: "pad (numeral n) k = pad (pred_numeral n) (k div 10) @ [digit (k mod 10)]"
proof -
  have h: "(numeral n :: nat) = Suc (pred_numeral n)" by (rule numeral_eq_Suc)
  show ?thesis unfolding h by simp
qed







text \<open>
  Outside an ordinary moment the end default need not be the current date: half an hour
  after local midnight, two hours ahead of UTC, \<^verbatim>\<open>formatDate(today)\<close> is the day before.
\<close>

lemma night_example:
  "current_date night_env = (2026, 11, 3)"
  "formatDate night_env (now (clock1 night_env)) = Inr ''2026-11-02''"
proof -
  let ?l = "1793665800000 :: int" and ?t = "1793658600000 :: int"
  have c: "LocalTime night_env ?t = ?l" "clock1 night_env = ?t"
    by (simp_all add: LocalTime_def night_env_def demo_env_def)
  have dl: "Day ?l = 20760" and dt: "Day ?t = 20759" by (simp_all add: Day_def msPerDay_def)
  have yl: "YearFromTime ?l = 2026"
    by (rule YearFromTime_eq) (simp_all add: dl DayFromYear_def)
  have wl: "DayWithinYear ?l = 306" by (simp add: DayWithinYear_def yl dl DayFromYear_def)
  have ll: "InLeapYear ?l = 0" by (simp add: InLeapYear_def yl DaysInYear_def)
  have ml: "MonthFromTime ?l = 10" by (simp add: MonthFromTime_def wl ll)
  have "DateFromTime ?l = 3" by (simp add: DateFromTime_def wl ll ml)
  then show "current_date night_env = (2026, 11, 3)"
    by (simp add: current_date_def calendar_date_def c yl ml)
  have yt: "YearFromTime ?t = 2026"
    by (rule YearFromTime_eq) (simp_all add: dt DayFromYear_def)
  have wt: "DayWithinYear ?t = 305" by (simp add: DayWithinYear_def yt dt DayFromYear_def)
  have lt: "InLeapYear ?t = 0" by (simp add: InLeapYear_def yt DaysInYear_def)
  have mt: "MonthFromTime ?t = 10" by (simp add: MonthFromTime_def wt lt)
  have dd: "DateFromTime ?t = 2" by (simp add: DateFromTime_def wt lt mt)
  have n: "now ?t = Some ?t" by (simp add: now_def TimeClip_def)
  have "formatDate night_env (Some ?t) = Inr (iso_date (calendar_date ?t))"
    by (rule iso_format(1)) (simp_all add: yt)
  also have "calendar_date ?t = (2026, 11, 2)" by (simp add: calendar_date_def yt mt dd)
  also have "iso_date (2026, 11, 2) = ''2026-11-02''"
    by (simp add: iso_date_def pad_numeral digit_def)
  finally show "formatDate night_env (now (clock1 night_env)) = Inr ''2026-11-02''"
    by (simp add: c n)
qed

lemma month_start_range:
  assumes "0 \<le> mn" "mn \<le> 11" "l = 0 \<or> l = 1"
  shows "0 \<le> month_start mn l" "month_start mn l < 365"
  using assms by (auto simp: month_start_def)

text \<open>\<open>MakeDay\<close> counts from the first day of the month it is given: the day it gives for
  the date 1 lies in that year and month and is the first of the month.\<close>

lemma MakeDay_first:
  assumes "0 \<le> mn" "mn \<le> 11"
  shows "YearFromTime (MakeDay y mn 1 * msPerDay) = y"
    and "MonthFromTime (MakeDay y mn 1 * msPerDay) = mn"
    and "DateFromTime (MakeDay y mn 1 * msPerDay) = 1"
proof -
  let ?l = "if DaysInYear y = 366 then 1 else 0 :: int"
  let ?t = "MakeDay y mn 1 * msPerDay"
  have m: "mn div 12 = 0" "mn mod 12 = mn" using assms by simp_all
  have d: "Day ?t = DayFromYear y + month_start mn ?l"
    by (simp add: Day_of_day MakeDay_def m Let_def)
  have r: "0 \<le> month_start mn ?l" "month_start mn ?l < 365"
    using month_start_range[OF assms, of ?l] by simp_all
  show y: "YearFromTime ?t = y"
  proof (rule YearFromTime_eq)
    show "DayFromYear y \<le> Day ?t" using d r by simp
    show "Day ?t < DayFromYear (y + 1)"
      using d r DaysInYear_cases[of y] by (auto simp: DayFromYear_step)
  qed
  have w: "DayWithinYear ?t = month_start mn ?l" by (simp add: DayWithinYear_def y d)
  have l: "InLeapYear ?t = ?l" by (simp add: InLeapYear_def y)
  have c: "mn = 0 \<or> mn = 1 \<or> mn = 2 \<or> mn = 3 \<or> mn = 4 \<or> mn = 5 \<or> mn = 6 \<or> mn = 7 \<or>
           mn = 8 \<or> mn = 9 \<or> mn = 10 \<or> mn = 11"
    using assms by presburger
  show mo: "MonthFromTime ?t = mn"
    unfolding MonthFromTime_def w l Let_def using c by (auto simp: month_start_def)
  show "DateFromTime ?t = 1"
    unfolding DateFromTime_def mo w l Let_def using c by (auto simp: month_start_def)
qed

lemma toISOString_example:
  "toISOString demo_env (now (clock1 demo_env)) = Inr ''2026-11-03T08:00:00.000Z''"
proof -
  let ?t = "1793692800000 :: int"
  have d: "Day ?t = 20760" by (simp add: Day_def msPerDay_def)
  have y: "YearFromTime ?t = 2026"
    by (rule YearFromTime_eq) (simp_all add: d DayFromYear_def)
  have w: "DayWithinYear ?t = 306" by (simp add: DayWithinYear_def y d DayFromYear_def)
  have l: "InLeapYear ?t = 0" by (simp add: InLeapYear_def y DaysInYear_def)
  have m: "MonthFromTime ?t = 10" by (simp add: MonthFromTime_def w l)
  have dd: "DateFromTime ?t = 3" by (simp add: DateFromTime_def w l m)
  have n: "now (clock1 demo_env) = Some ?t" by (simp add: now_def TimeClip_def demo_env_def)
  show ?thesis
    unfolding n
    by (simp add: toISOString_def y m dd year_string_def pad_numeral digit_def
        HourFromTime_def MinFromTime_def SecFromTime_def msFromTime_def)
qed
section \<open>Facts about the form as the handler holds it\<close>

lemma inside_id_Nil [simp]: "inside_id x [] t = False"
  by (simp add: inside_id_def)


lemma inside_id_Text [simp]: "inside_id x q (Text s) = False"
  by (cases q) (auto simp: inside_id_def elem_at_def)












lemma submit_start_found:
  assumes "elem_at form page = Some f"
    and "getElementById (replace_first ''-form'' [] (ident f) @ ''-status'') page = Some st"
    and "getElementById (replace_first ''-form'' [] (ident f) @ ''-results'') page = Some rs"
  shows "submit_start env form page =
     Inr (\<lparr>provider = replace_first ''-form'' [] (ident f), statusEl = st, resultsEl = rs,
           endpoint = dataset ''endpoint'' f,
           sent = assemble (replace_first ''-form'' [] (ident f)) (snd (form_held form st rs page))
                    (fst (form_held form st rs page))\<rparr>,
          set_innerHTML rs []
            (set_textContent st ''Polling in progress... Please wait.''
               (set_prop st (className_set [''status'', ''loading'']) page)))"
  using assms by (simp add: submit_start_def Let_def)





text \<open>
  A form inside its status element: the write of the loading message takes the form out of
  the page, and the handler still reads the inputs of the form.
\<close>

lemma nested_form_held: "form_held [0, 1] [0] [1] nested_page = (nested_form, [])"
  by (simp add: form_held_def replace_children_def follow_def nested_page_def set_prop_def)

lemma nested_form_example:
  "(case submit_start demo_env [0, 1] nested_page of
      Inl stopped \<Rightarrow> None
    | Inr (rq, pg) \<Rightarrow>
        Some (sent rq ''api_key'', sent rq ''dimensions'', sent rq ''metrics'', children_at [0] pg)) =
   Some (Some (Single ''secret''), Some (Many []), Some (Many [''impressions'']),
         Some [Text ''Polling in progress... Please wait.''])"
proof -
  let ?f = "el ''form'' ''gam-form''"
  have p: "replace_first ''-form'' [] (ident ?f) = ''gam''"
    by (simp add: el_def new_element_def startsWith_def)
  have e: "elem_at [0, 1] nested_page = Some ?f"
    by (simp add: elem_at_def nested_page_def nested_form_def)
  have st: "getElementById (replace_first ''-form'' [] (ident ?f) @ ''-status'') nested_page = Some [0]"
    unfolding p
    by (simp add: getElementById_def nested_page_def nested_form_def el_def new_element_def
        checkbox_def)
  have rs: "getElementById (replace_first ''-form'' [] (ident ?f) @ ''-results'') nested_page = Some [1]"
    unfolding p
    by (simp add: getElementById_def nested_page_def nested_form_def el_def new_element_def
        checkbox_def)
  have k: "assemble ''gam'' [] nested_form ''api_key'' = Some (Single ''secret'')"
    by (simp add: assemble_def collect_def controls_def nested_form_def assign_def field_key_def
        replace_char_def startsWith_def el_def new_element_def checkbox_def)
  have d: "assemble ''gam'' [] nested_form ''dimensions'' = Some (Many [])"
    by (simp add: assemble_def checked_values_def nested_form_def el_def new_element_def
        checkbox_def is_checked_def)
  have m: "assemble ''gam'' [] nested_form ''metrics'' = Some (Many [''impressions''])"
    by (simp add: assemble_def checked_values_def nested_form_def el_def new_element_def
        checkbox_def is_checked_def)
  have c: "children_at [0]
             (set_innerHTML [Suc 0] []
               (set_textContent [0] ''Polling in progress... Please wait.''
                 (set_prop [0] (className_set [''status'', ''loading'']) nested_page)))
           = Some [Text ''Polling in progress... Please wait.'']"
    by (simp add: children_at_def nested_page_def set_innerHTML_def set_textContent_def
        set_prop_def)
  show ?thesis
    unfolding submit_start_found[OF e st rs] p nested_form_held
    by (simp add: k d m c)
qed
section \<open>The claims\<close>

subsection \<open>Rendering the checkboxes\<close>

text \<open>
  Claim C8, as amended. When the panel named by \<open>cid\<close> exists, \<^verbatim>\<open>createCheckboxes\<close> leaves
  in it a heading followed by one label per field name, in the order of the list. Each
  label holds a checkbox that is checked and whose value is the field name as it stands,
  and a text node: a space followed by the field name with every underscore replaced by a
  space. So the panel has as many checkboxes as the list has names, their values are the
  names of the list, and each value is a member of it. The registry's lists are instances:
  \<^verbatim>\<open>createCheckboxes\<close> is called with \<open>provider @ ''-dimensions''\<close> or
  \<open>provider @ ''-metrics''\<close> and the list of that name.
\<close>

theorem createCheckboxes_renders:
  assumes "getElementById cid page = Some p"
  shows "\<exists>cs. children_at p (createCheckboxes cid items page) = Some cs \<and>
           length cs = Suc (length items) \<and>
           (\<forall>k < length items.
              cs ! Suc k =
                Elem (new_element ''label'')
                  [Elem ((new_element ''input'')\<lparr>itype := ''checkbox'', val := items ! k, checked := True\<rparr>) [],
                   Text ('' '' @ replace_char CHR ''_'' CHR '' '' (items ! k))]) \<and>
           map val (checkboxes_of cs) = items \<and>
           (\<forall>b \<in> set (checkboxes_of cs). checked b) \<and>
           length (checkboxes_of cs) = length items \<and>
           (\<forall>b \<in> set (checkboxes_of cs). val b \<in> set items)"
proof -
  from assms obtain a cs0 where g: "get_at p page = Some (Elem a cs0)"
    by (auto dest: getElementById_elem)
  have "children_at p (createCheckboxes cid items page) = Some (heading cid # map label_for items)"
    using assms g by (simp add: createCheckboxes_found children_at_def children_at_set_innerHTML)
  with rendered_panel_facts[of cid items] show ?thesis by blast
qed

theorem createCheckboxes_renders_witness:
  "getElementById ''gam-dimensions'' demo_page = Some [2, 0, 3] \<and>
   (\<exists>cs. children_at [2, 0, 3]
           (createCheckboxes ''gam-dimensions'' [''date'', ''ad_unit_name''] demo_page) = Some cs \<and>
         cs ! 2 =
           Elem (new_element ''label'')
             [Elem ((new_element ''input'')\<lparr>itype := ''checkbox'', val := ''ad_unit_name'',
                                                checked := True\<rparr>) [],
              Text '' ad unit name''] \<and>
         map val (checkboxes_of cs) = [''date'', ''ad_unit_name''] \<and>
         length (checkboxes_of cs) = 2)"
proof -
  have h: "getElementById ''gam-dimensions'' demo_page = Some [2, 0, 3]"
    by (simp add: getElementById_def demo_page_def demo_form_def el_def new_element_def)
  from createCheckboxes_renders[OF h, of "[''date'', ''ad_unit_name'']"]
  obtain cs where cs:
    "children_at [2, 0, 3]
       (createCheckboxes ''gam-dimensions'' [''date'', ''ad_unit_name''] demo_page) = Some cs"
    "\<forall>k < length [''date'', ''ad_unit_name''].
        cs ! Suc k =
          Elem (new_element ''label'')
            [Elem ((new_element ''input'')\<lparr>itype := ''checkbox'',
                     val := [''date'', ''ad_unit_name''] ! k, checked := True\<rparr>) [],
             Text ('' '' @ replace_char CHR ''_'' CHR '' '' ([''date'', ''ad_unit_name''] ! k))]"
    "map val (checkboxes_of cs) = [''date'', ''ad_unit_name'']"
    "length (checkboxes_of cs) = length [''date'', ''ad_unit_name'']"
    by (elim exE conjE) (rule that, assumption+)
  from cs(2) have "cs ! Suc 1 =
      Elem (new_element ''label'')
        [Elem ((new_element ''input'')\<lparr>itype := ''checkbox'',
                 val := [''date'', ''ad_unit_name''] ! 1, checked := True\<rparr>) [],
         Text ('' '' @ replace_char CHR ''_'' CHR '' '' ([''date'', ''ad_unit_name''] ! 1))]"
    by simp
  then have "cs ! 2 =
      Elem (new_element ''label'')
        [Elem ((new_element ''input'')\<lparr>itype := ''checkbox'', val := ''ad_unit_name'',
                                           checked := True\<rparr>) [],
         Text '' ad unit name'']"
    by (simp add: replace_char_def numeral_2_eq_2)
  with h cs(1,3,4) show ?thesis by auto
qed

text \<open>
  Claim C8 as it is stated fails on the text: the text node of the label of
  \<^verbatim>\<open>ad_unit_name\<close> is \<^verbatim>\<open>" ad unit name"\<close>, with the space that separates it from the
  checkbox, and not the field name with its underscores replaced.
\<close>

theorem label_text_counterexample:
  "children_at [2, 0, 3] (createCheckboxes ''gam-dimensions'' [''ad_unit_name''] demo_page) =
     Some [Elem (new_element ''strong'') [Text ''Dimensions:''],
           Elem (new_element ''label'')
             [Elem ((new_element ''input'')\<lparr>itype := ''checkbox'', val := ''ad_unit_name'',
                                                checked := True\<rparr>) [],
              Text '' ad unit name'']] \<and>
   '' ad unit name'' \<noteq> replace_char CHR ''_'' CHR '' '' ''ad_unit_name''"
  by (simp add: createCheckboxes_def getElementById_def demo_page_def demo_form_def el_def
      new_element_def children_at_def set_innerHTML_def appendChild_def heading_def
      label_for_def checkbox_def endsWith_def upper_first_def replace_char_def Let_def)

text \<open>
  The same for the loop over the registry. A panel of the registry that exists, and that
  neither contains nor lies inside an element with the id of another panel of the
  registry, holds after the loop what the call for it rendered.
\<close>

corollary populate_renders:
  assumes "(cid, items) \<in> set panels"
    and "getElementById cid page = Some p"
    and "\<forall>c \<in> fst ` set panels. c \<noteq> cid \<longrightarrow>
           (\<forall>q a. elem_at q page = Some a \<and> ident a = c \<longrightarrow> \<not> prefix p q \<and> \<not> prefix q p)"
  shows "\<exists>cs. children_at p (populate page) = Some cs \<and>
           length cs = Suc (length items) \<and>
           (\<forall>k < length items.
              cs ! Suc k =
                Elem (new_element ''label'')
                  [Elem ((new_element ''input'')\<lparr>itype := ''checkbox'', val := items ! k, checked := True\<rparr>) [],
                   Text ('' '' @ replace_char CHR ''_'' CHR '' '' (items ! k))]) \<and>
           map val (checkboxes_of cs) = items \<and>
           (\<forall>b \<in> set (checkboxes_of cs). checked b) \<and>
           length (checkboxes_of cs) = length items \<and>
           (\<forall>b \<in> set (checkboxes_of cs). val b \<in> set items)"
  using populate_panel[OF assms] rendered_panel_facts[of cid items] by blast

text \<open>
  Claim C9. Rendering the same field list into the same panel twice leaves the page that
  rendering it once leaves: the second call finds the same panel and replaces its
  contents by the same nodes. When the panel does not exist both calls do nothing.
\<close>

theorem createCheckboxes_idempotent:
  "createCheckboxes cid items (createCheckboxes cid items page) = createCheckboxes cid items page"
proof (cases "getElementById cid page")
  case None
  then show ?thesis by (simp add: createCheckboxes_def)
next
  case (Some p)
  then show ?thesis
    by (simp add: createCheckboxes_found getElementById_set_innerHTML set_innerHTML_twice)
qed

theorem createCheckboxes_idempotent_witness:
  "createCheckboxes ''gam-metrics'' [''impressions'', ''revenue'']
     (createCheckboxes ''gam-metrics'' [''impressions'', ''revenue''] demo_page) =
   createCheckboxes ''gam-metrics'' [''impressions'', ''revenue''] demo_page"
  using createCheckboxes_idempotent[of "''gam-metrics''" "[''impressions'', ''revenue'']" demo_page] .

subsection \<open>Tabs\<close>

text \<open>
  Claim C7. The page is as the script found it: \<open>tabButtons page\<close> and \<open>tabPanes page\<close> are
  the lists the handlers work on. Every tab button has exactly one pane that corresponds
  to it, and exactly one pane is active to begin with. Then after any sequence \<open>bs\<close> of
  clicks on tab buttons exactly one pane is active, and when a button was clicked at all
  the active pane is the one that corresponds to the button clicked last.
\<close>

theorem tab_clicks_one_active:
  assumes clicked: "set bs \<subseteq> set (tabButtons page)"
    and paired: "\<forall>b \<in> set (tabButtons page). \<exists>!q. q \<in> set (tabPanes page) \<and> corresponds page b q"
    and initially: "length (filter (is_active page) (tabPanes page)) = 1"
  shows "length (filter (is_active (clicks page bs)) (tabPanes page)) = 1 \<and>
         (bs \<noteq> [] \<longrightarrow>
            (\<forall>q \<in> set (tabPanes page). is_active (clicks page bs) q = corresponds page (last bs) q))"
proof (cases bs rule: rev_cases)
  case Nil
  then show ?thesis using initially by (simp add: clicks_def)
next
  case (snoc bs' b)
  let ?t = "fold (click (tabButtons page) (tabPanes page)) bs' page"
  have same: "\<And>x. map_option core (elem_at x ?t) = map_option core (elem_at x page)"
    by (rule core_clicks_fold)
  have b: "b \<in> set (tabButtons page)" using clicked snoc by auto
  then have eb: "elem_at b page \<noteq> None" by (auto simp: tabButtons_def select_iff)
  then have eb': "elem_at b ?t \<noteq> None" using same[of b] by auto
  have act: "is_active (clicks page bs) q = corresponds page b q" if q: "q \<in> set (tabPanes page)" for q
  proof -
    have "elem_at q page \<noteq> None" using q by (auto simp: tabPanes_def select_iff)
    then have "elem_at q ?t \<noteq> None" using same[of q] by auto
    then have "is_active (click (tabButtons page) (tabPanes page) b ?t) q = corresponds ?t b q"
      using q eb' by (intro is_active_click) (auto simp: tabPanes_def distinct_select)
    then show ?thesis using corresponds_core[OF same] snoc by (simp add: clicks_def)
  qed
  then have "filter (is_active (clicks page bs)) (tabPanes page) = filter (corresponds page b) (tabPanes page)"
    by (intro filter_cong) auto
  moreover have "length (filter (corresponds page b) (tabPanes page)) = 1"
    using paired b by (intro length_filter_unique) (auto simp: tabPanes_def distinct_select)
  ultimately show ?thesis using act snoc by simp
qed

theorem tab_clicks_one_active_witness:
  "set [[1], [0], [1]] \<subseteq> set (tabButtons demo_page) \<and>
   length (filter (is_active demo_page) (tabPanes demo_page)) = 1 \<and>
   length (filter (is_active (clicks demo_page [[1], [0], [1]])) (tabPanes demo_page)) = 1 \<and>
   is_active (clicks demo_page [[1], [0], [1]]) [3] \<and>
   corresponds demo_page [1] [3]"
proof -
  have b: "tabButtons demo_page = [[0], [1]]"
    by (simp add: tabButtons_def demo_page_def demo_form_def el_def new_element_def has_class_def)
  have p: "tabPanes demo_page = [[2], [3]]"
    by (simp add: tabPanes_def demo_page_def demo_form_def el_def new_element_def has_class_def)
  have c: "corresponds demo_page [0] [2]" "\<not> corresponds demo_page [0] [3]"
    "corresponds demo_page [1] [3]" "\<not> corresponds demo_page [1] [2]"
    by (simp_all add: corresponds_def elem_at_def dataset_def demo_page_def el_def new_element_def)
  have clicked: "set [[1], [0], [1]] \<subseteq> set (tabButtons demo_page)"
    by (simp add: b)
  have paired: "\<forall>b \<in> set (tabButtons demo_page).
                  \<exists>!q. q \<in> set (tabPanes demo_page) \<and> corresponds demo_page b q"
    using c by (auto simp: b p)
  have initially: "length (filter (is_active demo_page) (tabPanes demo_page)) = 1"
    unfolding p
    by (simp add: is_active_def elem_at_def has_class_def demo_page_def el_def new_element_def)
  from tab_clicks_one_active[OF clicked paired initially]
  have "length (filter (is_active (clicks demo_page [[1], [0], [1]])) (tabPanes demo_page)) = 1"
    and "\<forall>q \<in> set (tabPanes demo_page).
           is_active (clicks demo_page [[1], [0], [1]]) q = corresponds demo_page (last [[1], [0], [1]]) q"
    by simp_all
  then show ?thesis using clicked initially c by (simp add: p)
qed

subsection \<open>Default dates\<close>




subsection \<open>The reply to a submission\<close>

text \<open>
  Claim C5. The page is wired for the form and the reply has a 2xx status and a body that
  decodes to an array, or to an object whose \<^verbatim>\<open>data\<close> member is an array. Then the handler
  finishes, the status element has the classes \<^verbatim>\<open>status success\<close> and the text
  \<^verbatim>\<open>Polling successful! Fetched N rows.\<close> where \<open>N\<close> is the length of that array in decimal,
  and the results element holds the download link (named after the provider) followed by
  the \<^verbatim>\<open>pre\<close> element with the pretty-printed response.
\<close>

theorem successful_submission_rows:
  assumes "wired form page prov st rs"
    and "ok status"
    and "result = JArr rows \<or> (\<exists>kvs. result = JObj kvs \<and> map_of kvs ''data'' = Some (JArr rows))"
  shows "\<exists>page'. submit env form (Response status (Decoded result)) page = Inr page' \<and>
           status_shown st page' =
             Some ([''status'', ''success''],
                   ''Polling successful! Fetched '' @ show_nat (length rows) @ '' rows.'') \<and>
           children_at rs page' = Some [download_link env result prov, preformatted env result]"
proof -
  have "rowCount env result = Inr (Count (length rows))"
    using assms(3) by (auto simp: rowCount_array rowCount_data_array)
  moreover have "to_str (Count (length rows)) = Some (show_nat (length rows))"
    by simp
  ultimately show ?thesis
    using assms(1,2) by (rule submit_succeeded[rotated 2])
qed

theorem successful_submission_rows_witness:
  "wired [2, 0] demo_page ''gam'' [2, 1] [2, 2] \<and> ok 200 \<and>
   (\<exists>page'. submit demo_env [2, 0]
              (Response 200 (Decoded (JObj [(''data'',
                 JArr [JObj [(''a'', JNum (Number False ''1''))],
                       JObj [(''a'', JNum (Number False ''2''))]])]))) demo_page = Inr page' \<and>
            status_shown [2, 1] page' =
              Some ([''status'', ''success''], ''Polling successful! Fetched 2 rows.'') \<and>
            children_at [2, 2] page' =
              Some [Elem ((new_element ''a'')\<lparr>attrs := [(''href'', ''blob:1''),
                                                          (''download'', ''gam_report.json'')]\<rparr>)
                      [Text ''Download Results (JSON)''],
                    Elem (new_element ''pre'') [Text ''<json>'']])"
proof -
  let ?rows = "[JObj [(''a'', JNum (Number False ''1''))], JObj [(''a'', JNum (Number False ''2''))]]"
  have k: "ok 200" by (simp add: ok_def)
  have r: "JObj [(''data'', JArr ?rows)] = JArr ?rows \<or>
           (\<exists>kvs. JObj [(''data'', JArr ?rows)] = JObj kvs \<and> map_of kvs ''data'' = Some (JArr ?rows))"
    by simp
  from successful_submission_rows[OF wired_demo k r, of demo_env]
  show ?thesis
    using wired_demo k
    by (simp add: show_nat_small download_link_def preformatted_def demo_env_fields)
qed

text \<open>
  Claim C10, as amended. The page is wired for the form, the status is 2xx and the decoded
  body is not \<^verbatim>\<open>null\<close>, not an array, and, when it is an object whose \<^verbatim>\<open>data\<close> member is
  truthy, that member is neither an array nor an object with a truthy \<^verbatim>\<open>data\<close> member of
  its own (\<open>no_rows\<close>). Then the row count is 0: the status element shows
  \<^verbatim>\<open>Polling successful! Fetched 0 rows.\<close> with the classes \<^verbatim>\<open>status success\<close>, and the
  response is rendered with its download link.
\<close>

theorem unexpected_shape_zero_rows:
  assumes "wired form page prov st rs"
    and "ok status"
    and "no_rows result"
  shows "\<exists>page'. submit env form (Response status (Decoded result)) page = Inr page' \<and>
           status_shown st page' =
             Some ([''status'', ''success''], ''Polling successful! Fetched 0 rows.'') \<and>
           children_at rs page' = Some [download_link env result prov, preformatted env result]"
proof -
  have "rowCount env result = Inr (Count 0)"
    using assms(3) by (rule rowCount_no_rows)
  moreover have "to_str (Count 0) = Some ''0''"
    by (simp add: show_nat_small)
  ultimately have "\<exists>page'. submit env form (Response status (Decoded result)) page = Inr page' \<and>
           status_shown st page' =
             Some ([''status'', ''success''], ''Polling successful! Fetched '' @ ''0'' @ '' rows.'') \<and>
           children_at rs page' = Some [download_link env result prov, preformatted env result]"
    using assms(1,2) by (rule submit_succeeded[rotated 2])
  then show ?thesis by simp
qed

theorem unexpected_shape_zero_rows_witness:
  "wired [2, 0] demo_page ''gam'' [2, 1] [2, 2] \<and> ok 200 \<and> no_rows (JObj [(''ok'', JBool True)]) \<and>
   (\<exists>page'. submit demo_env [2, 0] (Response 200 (Decoded (JObj [(''ok'', JBool True)]))) demo_page
              = Inr page' \<and>
            status_shown [2, 1] page' =
              Some ([''status'', ''success''], ''Polling successful! Fetched 0 rows.'') \<and>
            children_at [2, 2] page' =
              Some [Elem ((new_element ''a'')\<lparr>attrs := [(''href'', ''blob:1''),
                                                          (''download'', ''gam_report.json'')]\<rparr>)
                      [Text ''Download Results (JSON)''],
                    Elem (new_element ''pre'') [Text ''<json>'']])"
proof -
  have k: "ok 200" by (simp add: ok_def)
  have n: "no_rows (JObj [(''ok'', JBool True)])" by simp
  from unexpected_shape_zero_rows[OF wired_demo k n, of demo_env]
  show ?thesis
    using wired_demo k n
    by (simp add: download_link_def preformatted_def demo_env_fields)
qed

text \<open>
  Claim C10 as it is stated fails for a body whose \<^verbatim>\<open>data\<close> member is an object that has
  an array \<^verbatim>\<open>data\<close> of its own: the body is neither an array nor an object whose \<^verbatim>\<open>data\<close>
  is an array, and the handler counts the rows of the inner array.
\<close>

theorem nested_data_counterexample:
  "(case submit demo_env [2, 0]
           (Response 200 (Decoded (JObj [(''data'',
              JObj [(''data'', JArr [JNum (Number False ''1''), JNum (Number False ''2''),
                                     JNum (Number False ''3'')])])]))) demo_page of
      Inl stopped \<Rightarrow> None
    | Inr page' \<Rightarrow> status_shown [2, 1] page') =
   Some ([''status'', ''success''], ''Polling successful! Fetched 3 rows.'')"
proof -
  let ?body = "JObj [(''data'',
              JObj [(''data'', JArr [JNum (Number False ''1''), JNum (Number False ''2''),
                                     JNum (Number False ''3'')])])]"
  have k: "ok 200" by (simp add: ok_def)
  have r: "rowCount demo_env ?body = Inr (Count 3)" by (simp add: rowCount_def)
  have t: "to_str (Count 3) = Some ''3''" by (simp add: show_nat_small)
  from submit_succeeded[OF wired_demo k r t]
  show ?thesis by auto
qed

text \<open>
  Claim C1, as amended. The page is wired for the form, the status is not 2xx and the body
  decodes to an object whose \<^verbatim>\<open>error\<close> member is a string that is not empty. Then the
  submission is a failure: the status element has the classes \<^verbatim>\<open>status error\<close> and the
  text \<^verbatim>\<open>Polling failed: \<close> followed by that string, and the results element is empty.
\<close>

theorem server_error_shown:
  assumes "wired form page prov st rs"
    and "\<not> ok status"
    and "map_of kvs ''error'' = Some (JStr s)" and "s \<noteq> []"
  shows "\<exists>page'. submit env form (Response status (Decoded (JObj kvs))) page = Inr page' \<and>
           status_shown st page' = Some ([''status'', ''error''], ''Polling failed: '' @ s) \<and>
           children_at rs page' = Some []"
proof -
  have "try_block env rq (Response status (Decoded (JObj kvs))) pg = Inl (Error s, pg)" for rq pg
    using assms(2-4) by (simp add: try_block_throws server_error_string)
  from submit_thrown[OF assms(1) this] show ?thesis by simp
qed

theorem server_error_shown_witness:
  "wired [2, 0] demo_page ''gam'' [2, 1] [2, 2] \<and> \<not> ok 500 \<and>
   map_of [(''error'', JStr ''quota exceeded'')] ''error'' = Some (JStr ''quota exceeded'') \<and>
   (\<exists>page'. submit demo_env [2, 0]
              (Response 500 (Decoded (JObj [(''error'', JStr ''quota exceeded'')]))) demo_page
              = Inr page' \<and>
            status_shown [2, 1] page' =
              Some ([''status'', ''error''], ''Polling failed: quota exceeded'') \<and>
            children_at [2, 2] page' = Some [])"
proof -
  have k: "\<not> ok 500" by (simp add: ok_def)
  have m: "map_of [(''error'', JStr ''quota exceeded'')] ''error'' = Some (JStr ''quota exceeded'')"
    by simp
  have s: "''quota exceeded'' \<noteq> []" by simp
  from server_error_shown[OF wired_demo k m s, of demo_env]
  show ?thesis using wired_demo k m by simp
qed

text \<open>
  Claim C1 as it is stated fails for a 2xx status: the \<^verbatim>\<open>error\<close> member is only read when
  \<^verbatim>\<open>response.ok\<close> is false. With the status 200 and the body \<^verbatim>\<open>{"error": "quota exceeded"}\<close>
  the submission counts as a success with no rows.
\<close>

theorem error_in_2xx_counterexample:
  "(case submit demo_env [2, 0]
           (Response 200 (Decoded (JObj [(''error'', JStr ''quota exceeded'')]))) demo_page of
      Inl stopped \<Rightarrow> None
    | Inr page' \<Rightarrow> status_shown [2, 1] page') =
   Some ([''status'', ''success''], ''Polling successful! Fetched 0 rows.'')"
proof -
  have k: "ok 200" by (simp add: ok_def)
  have r: "rowCount demo_env (JObj [(''error'', JStr ''quota exceeded'')]) = Inr (Count 0)"
    by (simp add: rowCount_def)
  have t: "to_str (Count 0) = Some ''0''" by (simp add: show_nat_small)
  from submit_succeeded[OF wired_demo k r t]
  show ?thesis by auto
qed

text \<open>
  Claim C6 at the input where the handler departs from it: the status is not 2xx and the
  body is the JSON value \<^verbatim>\<open>null\<close>. Reading \<^verbatim>\<open>result.error\<close> throws a type error inside the
  \<^verbatim>\<open>try\<close> block, and the status element shows the message of that type error, not
  \<^verbatim>\<open>Server responded with status N\<close>.
\<close>

theorem null_body_message:
  assumes "wired form page prov st rs"
    and "\<not> ok status"
  shows "\<exists>page'. submit env form (Response status (Decoded JNull)) page = Inr page' \<and>
           status_shown st page' =
             Some ([''status'', ''error''], ''Polling failed: '' @ null_read_msg env ''error'') \<and>
           children_at rs page' = Some []"
proof -
  have "try_block env rq (Response status (Decoded JNull)) pg
          = Inl (TypeError (null_read_msg env ''error''), pg)" for rq pg
    using assms(2) by (simp add: try_block_throws server_error_null)
  from submit_thrown[OF assms(1) this] show ?thesis by simp
qed

theorem null_body_message_witness:
  "wired [2, 0] demo_page ''gam'' [2, 1] [2, 2] \<and> \<not> ok 500 \<and>
   (\<exists>page'. submit demo_env [2, 0] (Response 500 (Decoded JNull)) demo_page = Inr page' \<and>
            status_shown [2, 1] page' =
              Some ([''status'', ''error''],
                    ''Polling failed: Cannot read properties of null (reading error)'') \<and>
            children_at [2, 2] page' = Some [])"
proof -
  have k: "\<not> ok 500" by (simp add: ok_def)
  from null_body_message[OF wired_demo k, of demo_env]
  show ?thesis using wired_demo k by (simp add: demo_env_fields)
qed

subsection \<open>Missing elements\<close>

text \<open>
  Claim C3 at the inputs where the handler departs from it. \<^verbatim>\<open>createCheckboxes\<close> returns
  at once when its panel is missing (\<open>createCheckboxes_missing\<close>); the submit handler has
  no such test. When the status element of the provider is missing, the handler stops with
  the type error of writing \<^verbatim>\<open>className\<close> on \<^verbatim>\<open>null\<close>. When the status element exists and
  the results element is missing, the handler first puts the status element into its
  loading state and then stops with the type error of writing \<^verbatim>\<open>innerHTML\<close> on \<^verbatim>\<open>null\<close>;
  no request is sent, whatever reply \<open>r\<close> the server would have given, and the status
  element stays as it is.
\<close>

theorem submit_missing_target:
  assumes "elem_at form page = Some f"
    and "prov = replace_first ''-form'' [] (ident f)"
  shows "(getElementById (prov @ ''-status'') page = None \<longrightarrow>
            submit env form r page = Inl (TypeError (null_write_msg env ''className''), page)) \<and>
         (getElementById (prov @ ''-status'') page = Some st \<and>
          getElementById (prov @ ''-results'') page = None \<longrightarrow>
            submit env form r page =
              Inl (TypeError (null_write_msg env ''innerHTML''),
                   set_textContent st ''Polling in progress... Please wait.''
                     (set_prop st (className_set [''status'', ''loading'']) page)))"
  using assms by (simp add: submit_def submit_start_def Let_def)

theorem submit_missing_target_witness:
  "elem_at [0] bare_page = Some (el ''form'' ''gam-form'') \<and>
   replace_first ''-form'' [] (ident (el ''form'' ''gam-form'')) = ''gam'' \<and>
   getElementById ''gam-status'' bare_page = Some [1] \<and>
   getElementById ''gam-results'' bare_page = None \<and>
   status_shown [1] bare_page = Some ([], []) \<and>
   (\<exists>page'. submit demo_env [0] (Response 200 (Decoded (JArr []))) bare_page =
              Inl (TypeError ''Cannot set properties of null (setting innerHTML)'', page') \<and>
            status_shown [1] page' =
              Some ([''status'', ''loading''], ''Polling in progress... Please wait.'')) \<and>
   elem_at [0] lone_page = Some (el ''form'' ''gam-form'') \<and>
   getElementById ''gam-status'' lone_page = None \<and>
   submit demo_env [0] (Response 200 (Decoded (JArr []))) lone_page =
     Inl (TypeError ''Cannot set properties of null (setting className)'', lone_page)"
proof -
  have f: "elem_at [0] bare_page = Some (el ''form'' ''gam-form'')"
    by (simp add: elem_at_def bare_page_def)
  have p: "replace_first ''-form'' [] (ident (el ''form'' ''gam-form'')) = ''gam''"
    by (simp add: el_def new_element_def startsWith_def)
  have s: "getElementById (''gam'' @ ''-status'') bare_page = Some [1]"
    by (simp add: getElementById_def bare_page_def el_def new_element_def)
  have n: "getElementById (''gam'' @ ''-results'') bare_page = None"
    by (simp add: getElementById_def bare_page_def el_def new_element_def)
  have b: "status_shown [1] bare_page = Some ([], [])"
    by (simp add: status_shown_def bare_page_def el_def new_element_def)
  have a: "status_shown [1]
             (set_textContent [1] ''Polling in progress... Please wait.''
               (set_prop [1] (className_set [''status'', ''loading'']) bare_page)) =
           Some ([''status'', ''loading''], ''Polling in progress... Please wait.'')"
    by (simp add: status_shown_def bare_page_def el_def new_element_def set_textContent_def
        set_prop_def className_set_def)
  from submit_missing_target[OF f p[symmetric], where st = "[1]" and env = demo_env
      and r = "Response 200 (Decoded (JArr []))"] s n
  have r1: "submit demo_env [0] (Response 200 (Decoded (JArr []))) bare_page =
          Inl (TypeError (null_write_msg demo_env ''innerHTML''),
               set_textContent [1] ''Polling in progress... Please wait.''
                 (set_prop [1] (className_set [''status'', ''loading'']) bare_page))"
    by simp
  have f2: "elem_at [0] lone_page = Some (el ''form'' ''gam-form'')"
    by (simp add: elem_at_def lone_page_def)
  have s2: "getElementById (''gam'' @ ''-status'') lone_page = None"
    by (simp add: getElementById_def lone_page_def el_def new_element_def)
  from submit_missing_target[OF f2 p[symmetric], where st = "[1]" and env = demo_env
      and r = "Response 200 (Decoded (JArr []))"] s2
  have r2: "submit demo_env [0] (Response 200 (Decoded (JArr []))) lone_page =
          Inl (TypeError (null_write_msg demo_env ''className''), lone_page)"
    by simp
  from f p s n b a r1 f2 s2 r2 show ?thesis by (simp add: demo_env_fields)
qed

subsection \<open>The payload\<close>





end
